theory Spec2Isabelle
  imports Complex_Main "HOL-Library.Log_Nat"
begin

section \<open>The footfall counter: data model\<close>

text \<open>
  The development embeds \<^verbatim>\<open>FootfallCounter\<close> of \<^verbatim>\<open>footfall_counter.py\<close>:
  its constructor and \<^verbatim>\<open>update_counts\<close>, the only method that writes the
  counters, the counted set and the track histories. Detection (the YOLO model) and
  drawing are collaborators; the drawing methods only read the state.

  Python integers are unbounded, so track ids, pixel coordinates, frame heights and
  the two counters are \<open>int\<close>. The line position is a Python float, as the default
  \<^verbatim>\<open>0.5\<close> and \<^verbatim>\<open>LINE_POSITION\<close> are: an IEEE 754 binary64 value, which is a
  rational number, an infinity or a NaN. The sign of a zero is left out: no operation of
  the counter tells \<^verbatim>\<open>-0.0\<close> from \<^verbatim>\<open>0.0\<close>.
\<close>

datatype py_error = KeyError string | ValueError | OverflowError

datatype py_float = Finite rat | PosInf | NegInf | NaN

text \<open>
  A detection is a Python dict. \<^verbatim>\<open>update_counts\<close> reads the keys
  \<^verbatim>\<open>'track_id'\<close> and \<^verbatim>\<open>'centroid'\<close> only; a key that is missing is \<open>None\<close> here
  and reading it raises \<^verbatim>\<open>KeyError\<close>.
\<close>

record detection =
  track_id :: "int option"
  centroid :: "(int \<times> int) option"

text \<open>
  The fields of the object, without the detector. \<^verbatim>\<open>track_history\<close> is a
  \<^verbatim>\<open>defaultdict(list)\<close>: a map from track ids to lists, where reading an absent key
  gives the empty list.
\<close>

record counter =
  line_position :: py_float
  track_history :: "int \<rightharpoonup> (int \<times> int) list"
  counted_ids :: "int set"
  entry_count :: int
  exit_count :: int

definition TRACK_HISTORY_LENGTH :: nat where
  "TRACK_HISTORY_LENGTH = 30"

definition init :: "py_float \<Rightarrow> counter" where
  "init lp = \<lparr>line_position = lp, track_history = Map.empty, counted_ids = {},
     entry_count = 0, exit_count = 0\<rparr>"

definition history_of :: "counter \<Rightarrow> int \<Rightarrow> (int \<times> int) list" where
  "history_of c t = (case track_history c t of None \<Rightarrow> [] | Some h \<Rightarrow> h)"

section \<open>Float arithmetic\<close>

text \<open>
  The binary exponent of a positive rational \<open>a\<close>: the \<open>e\<close> with
  \<open>2 ^ e \<le> a < 2 ^ (e + 1)\<close>, from the bit length of an integer.
\<close>

definition floor_log2 :: "rat \<Rightarrow> int" where
  "floor_log2 a = (if 1 \<le> a then bitlen \<lfloor>a\<rfloor> - 1 else - bitlen (\<lceil>1 / a\<rceil> - 1))"

text \<open>Rounding to the nearest integer, a tie to the even neighbour.\<close>

definition round_half_even :: "rat \<Rightarrow> int" where
  "round_half_even x =
     (if x - of_int \<lfloor>x\<rfloor> < 1/2 then \<lfloor>x\<rfloor>
      else if x - of_int \<lfloor>x\<rfloor> > 1/2 then \<lfloor>x\<rfloor> + 1
      else if even \<lfloor>x\<rfloor> then \<lfloor>x\<rfloor> else \<lfloor>x\<rfloor> + 1)"

text \<open>
  Rounding a positive rational to binary64, before the check for overflow: the value
  is rounded to a multiple of the quantum of its binade, which is \<open>2 ^ (e - 52)\<close> for
  the exponent \<open>e\<close> (53 significant bits), and \<open>2 ^ - 1074\<close> for the subnormal numbers.
\<close>

definition round_magnitude :: "rat \<Rightarrow> rat" where
  "round_magnitude a =
     (let q = 2 powi (max (floor_log2 a) (- 1022) - 52)
      in of_int (round_half_even (a / q)) * q)"

text \<open>
  Rounding a rational to binary64 (round to nearest, ties to even), the rounding of
  every float operation: a result of magnitude \<open>2 ^ 1024\<close> or more overflows to an
  infinity.
\<close>

definition round_double :: "rat \<Rightarrow> py_float" where
  "round_double x =
     (if x = 0 then Finite 0
      else
        let r = round_magnitude \<bar>x\<bar>
        in if 2 ^ 1024 \<le> r then (if 0 < x then PosInf else NegInf)
           else Finite (if 0 < x then r else - r))"

text \<open>
  The conversion of an \<^verbatim>\<open>int\<close> operand of a float operation: correctly rounded, and
  \<^verbatim>\<open>OverflowError\<close> when the integer is too large for a float.
\<close>

definition float_of_int :: "int \<Rightarrow> py_error + py_float" where
  "float_of_int n =
     (case round_double (of_int n) of
        Finite r \<Rightarrow> Inr (Finite r)
      | _ \<Rightarrow> Inl OverflowError)"

text \<open>The product of two floats.\<close>

fun float_mul :: "py_float \<Rightarrow> py_float \<Rightarrow> py_float" where
  "float_mul NaN _ = NaN"
| "float_mul _ NaN = NaN"
| "float_mul (Finite x) (Finite y) = round_double (x * y)"
| "float_mul (Finite x) PosInf = (if x = 0 then NaN else if 0 < x then PosInf else NegInf)"
| "float_mul (Finite x) NegInf = (if x = 0 then NaN else if 0 < x then NegInf else PosInf)"
| "float_mul PosInf (Finite y) = (if y = 0 then NaN else if 0 < y then PosInf else NegInf)"
| "float_mul NegInf (Finite y) = (if y = 0 then NaN else if 0 < y then NegInf else PosInf)"
| "float_mul PosInf PosInf = PosInf"
| "float_mul PosInf NegInf = NegInf"
| "float_mul NegInf PosInf = NegInf"
| "float_mul NegInf NegInf = PosInf"

text \<open>
  Python's \<^verbatim>\<open>int()\<close> on a float truncates towards zero; it raises \<^verbatim>\<open>ValueError\<close>
  for a NaN and \<^verbatim>\<open>OverflowError\<close> for an infinity.
\<close>

definition py_int :: "py_float \<Rightarrow> py_error + int" where
  "py_int x =
     (case x of
        NaN \<Rightarrow> Inl ValueError
      | PosInf \<Rightarrow> Inl OverflowError
      | NegInf \<Rightarrow> Inl OverflowError
      | Finite r \<Rightarrow> Inr (if 0 \<le> r then \<lfloor>r\<rfloor> else \<lceil>r\<rceil>))"

text \<open>
  Python's \<^verbatim>\<open>round\<close> on a float rounds to the nearest integer and a tie to the even
  neighbour, with the errors of \<^verbatim>\<open>int()\<close>. This function is not in the source: it is
  the \<open>round\<close> of the specification's \<open>lineY = round(f * frameHeight)\<close>, for the
  comparison with \<open>counting_line_y\<close>.
\<close>

definition py_round :: "py_float \<Rightarrow> py_error + int" where
  "py_round x =
     (case x of
        NaN \<Rightarrow> Inl ValueError
      | PosInf \<Rightarrow> Inl OverflowError
      | NegInf \<Rightarrow> Inl OverflowError
      | Finite r \<Rightarrow> Inr (round_half_even r))"

section \<open>The operations\<close>

text \<open>
  \<^verbatim>\<open>counting_line_y = int(frame_height * self.line_position)\<close>: the frame height is
  converted to a float, the two floats are multiplied, and the product is truncated.
\<close>

definition counting_line_y :: "py_float \<Rightarrow> int \<Rightarrow> py_error + int" where
  "counting_line_y lp frame_height =
     (case float_of_int frame_height of
        Inl e \<Rightarrow> Inl e
      | Inr fh \<Rightarrow> py_int (float_mul fh lp))"

text \<open>
  One pass of the body of the \<^verbatim>\<open>for\<close> loop of \<^verbatim>\<open>update_counts\<close>. Both keys are read
  before anything is written, so a \<^verbatim>\<open>KeyError\<close> leaves the object as it was. The two
  negative indices \<^verbatim>\<open>[-2]\<close> and \<^verbatim>\<open>[-1]\<close> are read under the guard
  \<^verbatim>\<open>len(...) >= 2\<close>, where they are the positions \<open>length h - 2\<close> and \<open>length h - 1\<close>.
\<close>

definition loop_body :: "int \<Rightarrow> counter \<Rightarrow> detection \<Rightarrow> py_error + counter" where
  "loop_body line_y c d =
     (case track_id d of
        None \<Rightarrow> Inl (KeyError ''track_id'')
      | Some tid \<Rightarrow>
     (case centroid d of
        None \<Rightarrow> Inl (KeyError ''centroid'')
      | Some cen \<Rightarrow>
          let h1 = history_of c tid @ [cen];
              h2 = (if length h1 > TRACK_HISTORY_LENGTH then tl h1 else h1);
              c1 = c\<lparr>track_history := (track_history c)(tid \<mapsto> h2)\<rparr>
          in
            if length h2 \<ge> 2 \<and> tid \<notin> counted_ids c1 then
              let prev_y = snd (h2 ! (length h2 - 2));
                  curr_y = snd (h2 ! (length h2 - 1))
              in
                if prev_y < line_y \<and> curr_y \<ge> line_y then
                  Inr (c1\<lparr>entry_count := entry_count c1 + 1,
                          counted_ids := insert tid (counted_ids c1)\<rparr>)
                else if prev_y > line_y \<and> curr_y \<le> line_y then
                  Inr (c1\<lparr>exit_count := exit_count c1 + 1,
                          counted_ids := insert tid (counted_ids c1)\<rparr>)
                else Inr c1
            else Inr c1))"

text \<open>
  The \<^verbatim>\<open>for\<close> loop. The object is mutated in place, so when a pass raises, the loop
  stops and the object keeps what the earlier passes wrote: the result is the state
  of the object and the exception, if one was raised.
\<close>

fun for_detections :: "int \<Rightarrow> counter \<Rightarrow> detection list \<Rightarrow> counter \<times> py_error option" where
  "for_detections line_y c [] = (c, None)"
| "for_detections line_y c (d # ds) =
     (case loop_body line_y c d of
        Inl e \<Rightarrow> (c, Some e)
      | Inr c' \<Rightarrow> for_detections line_y c' ds)"

text \<open>
  \<^verbatim>\<open>update_counts\<close>: the line is computed first, and an exception there leaves the
  object as it was.
\<close>

definition update_counts :: "counter \<Rightarrow> detection list \<Rightarrow> int \<Rightarrow> counter \<times> py_error option" where
  "update_counts c detections frame_height =
     (case counting_line_y (line_position c) frame_height of
        Inl e \<Rightarrow> (c, Some e)
      | Inr line_y \<Rightarrow> for_detections line_y c detections)"

text \<open>
  A sequence of calls of \<^verbatim>\<open>update_counts\<close>, one per frame, each with that frame's
  detections and the frame height its caller passes. Nothing catches an exception, so
  the first one ends the run.
\<close>

fun run :: "counter \<Rightarrow> (detection list \<times> int) list \<Rightarrow> counter \<times> py_error option" where
  "run c [] = (c, None)"
| "run c ((detections, frame_height) # frames) =
     (case update_counts c detections frame_height of
        (c', None) \<Rightarrow> run c' frames
      | (c', Some e) \<Rightarrow> (c', Some e))"

text \<open>
  The frame loop of \<^verbatim>\<open>main\<close>, as far as the counter sees it. \<^verbatim>\<open>main\<close> reads
  \<^verbatim>\<open>frame_height\<close> once, from the properties of the video, before the loop, and
  passes that same value to \<^verbatim>\<open>update_counts\<close> for every frame.
\<close>

definition main_loop :: "counter \<Rightarrow> int \<Rightarrow> detection list list \<Rightarrow> counter \<times> py_error option" where
  "main_loop c frame_height frames =
     run c (map (\<lambda>detections. (detections, frame_height)) frames)"

text \<open>A well-formed detection, as \<^verbatim>\<open>detect_and_track\<close> builds it, with both keys.\<close>

definition det :: "int \<Rightarrow> int \<times> int \<Rightarrow> detection" where
  "det t p = \<lparr>track_id = Some t, centroid = Some p\<rparr>"

definition well_formed :: "detection \<Rightarrow> bool" where
  "well_formed d = (track_id d \<noteq> None \<and> centroid d \<noteq> None)"

text \<open>
  What lines 64 to 66 leave in a track's list: the new position is appended, and the
  oldest one removed when the list has grown beyond the capacity. The name is used
  in the lemmas that follow; \<open>loop_body\<close> spells the code out.
\<close>

definition appended :: "(int \<times> int) list \<Rightarrow> int \<times> int \<Rightarrow> (int \<times> int) list" where
  "appended h cen =
     (if length (h @ [cen]) > TRACK_HISTORY_LENGTH then tl (h @ [cen]) else h @ [cen])"

text \<open>
  The positions a run feeds to one track, in the order of the frames and, within a
  frame, of the detection list.
\<close>

definition positions_of :: "int \<Rightarrow> (detection list \<times> int) list \<Rightarrow> (int \<times> int) list" where
  "positions_of t frames =
     List.map_filter (\<lambda>d. if track_id d = Some t then centroid d else None)
       (concat (map fst frames))"

text \<open>
  What one pass adds to \<^verbatim>\<open>entry_count + exit_count\<close>, and the sum of these over
  the passes of a run whose detection carries the track id \<open>t\<close>: the contribution
  of \<open>t\<close> to the totals. The passes are those \<open>for_detections\<close> and \<open>run\<close> make, up
  to the first exception; a call whose line computation raises makes no pass.
\<close>

definition increment :: "counter \<Rightarrow> counter \<Rightarrow> int" where
  "increment c c' = (entry_count c' + exit_count c') - (entry_count c + exit_count c)"

fun contribution_frame :: "int \<Rightarrow> int \<Rightarrow> counter \<Rightarrow> detection list \<Rightarrow> int" where
  "contribution_frame t line_y c [] = 0"
| "contribution_frame t line_y c (d # ds) =
     (case loop_body line_y c d of
        Inl e \<Rightarrow> 0
      | Inr c' \<Rightarrow> (if track_id d = Some t then increment c c' else 0)
                  + contribution_frame t line_y c' ds)"

fun contribution :: "int \<Rightarrow> counter \<Rightarrow> (detection list \<times> int) list \<Rightarrow> int" where
  "contribution t c [] = 0"
| "contribution t c ((detections, frame_height) # frames) =
     (case counting_line_y (line_position c) frame_height of
        Inl e \<Rightarrow> 0
      | Inr line_y \<Rightarrow>
          contribution_frame t line_y c detections
          + (case update_counts c detections frame_height of
               (c', None) \<Rightarrow> contribution t c' frames
             | (c', Some e) \<Rightarrow> 0))"

text \<open>
  The totals and the counted set agree: the set is finite and has as many members as
  the two counters add up to.
\<close>

definition paired :: "counter \<Rightarrow> bool" where
  "paired c = (finite (counted_ids c)
     \<and> entry_count c + exit_count c = int (card (counted_ids c)))"

section \<open>Properties of the float arithmetic\<close>

lemma powi2_less_cancel: "(2::rat) powi m < 2 powi n \<Longrightarrow> m < n"
proof (rule ccontr)
  assume less: "(2::rat) powi m < 2 powi n" and "\<not> m < n"
  then have "n \<le> m" by simp
  then have "(2::rat) powi n \<le> 2 powi m" by (rule power_int_increasing) simp
  with less show False by simp
qed

lemma bitlen_rat_bounds:
  assumes "0 < n"
  shows "(2::rat) powi (bitlen n - 1) \<le> of_int n" and "of_int n < (2::rat) powi (bitlen n)"
proof -
  from bitlen_bounds [OF assms] have lo: "2 ^ nat (bitlen n - 1) \<le> n" and hi: "n < 2 ^ nat (bitlen n)"
    by simp_all
  have b1: "1 \<le> bitlen n" using assms bitlen_eq_zero_iff [of n] bitlen_nonneg [of n] by linarith
  have "(of_int (2 ^ nat (bitlen n - 1)) :: rat) \<le> of_int n" using lo by (simp only: of_int_le_iff)
  then show "(2::rat) powi (bitlen n - 1) \<le> of_int n"
    using b1 by (simp add: power_int_def)
  have "(of_int n :: rat) < of_int (2 ^ nat (bitlen n))" using hi by (simp only: of_int_less_iff)
  then show "of_int n < (2::rat) powi (bitlen n)"
    using b1 by (simp add: power_int_def)
qed

lemma floor_log2_bounds:
  assumes "0 < a"
  shows "2 powi (floor_log2 a) \<le> a" and "a < 2 powi (floor_log2 a + 1)"
proof -
  have "2 powi (floor_log2 a) \<le> a \<and> a < 2 powi (floor_log2 a + 1)"
  proof (cases "1 \<le> a")
    case True
    then have n: "0 < \<lfloor>a\<rfloor>" by simp
    have e: "floor_log2 a = bitlen \<lfloor>a\<rfloor> - 1" using True by (simp add: floor_log2_def)
    have "(2::rat) powi (bitlen \<lfloor>a\<rfloor> - 1) \<le> of_int \<lfloor>a\<rfloor>" by (rule bitlen_rat_bounds [OF n])
    also have "\<dots> \<le> a" by simp
    finally have lo: "2 powi (floor_log2 a) \<le> a" by (simp add: e)
    have "\<lfloor>a\<rfloor> < 2 ^ nat (bitlen \<lfloor>a\<rfloor>)" using bitlen_bounds [OF n] by simp
    then have "\<lfloor>a\<rfloor> + 1 \<le> 2 ^ nat (bitlen \<lfloor>a\<rfloor>)" by simp
    then have "(of_int (\<lfloor>a\<rfloor> + 1) :: rat) \<le> of_int (2 ^ nat (bitlen \<lfloor>a\<rfloor>))"
      by (simp only: of_int_le_iff)
    moreover have "a < of_int (\<lfloor>a\<rfloor> + 1)" by linarith
    ultimately have "a < of_int (2 ^ nat (bitlen \<lfloor>a\<rfloor>))" by linarith
    then have "a < 2 powi (bitlen \<lfloor>a\<rfloor>)"
      using bitlen_nonneg [of "\<lfloor>a\<rfloor>"] by (simp add: power_int_def)
    with lo e show ?thesis by simp
  next
    case False
    define b where "b = 1 / a"
    define m where "m = \<lceil>b\<rceil> - 1"
    have b1: "1 < b" using False assms by (simp add: b_def)
    then have "1 < \<lceil>b\<rceil>" by (simp add: less_ceiling_iff)
    then have m: "0 < m" by (simp add: m_def)
    have e: "floor_log2 a = - bitlen m" using False by (simp add: floor_log2_def m_def b_def)
    have mb: "of_int m < b" unfolding m_def by linarith
    have bm: "b \<le> of_int (m + 1)" unfolding m_def by simp
    have "m < 2 ^ nat (bitlen m)" using bitlen_bounds [OF m] by simp
    then have "m + 1 \<le> 2 ^ nat (bitlen m)" by simp
    then have "(of_int (m + 1) :: rat) \<le> of_int (2 ^ nat (bitlen m))"
      by (simp only: of_int_le_iff)
    with bm have "b \<le> of_int (2 ^ nat (bitlen m))" by linarith
    then have bhi: "b \<le> 2 powi (bitlen m)"
      using bitlen_nonneg [of m] by (simp add: power_int_def)
    have blo: "2 powi (bitlen m - 1) < b"
      using bitlen_rat_bounds(1) [OF m] mb by linarith
    have pos: "(0::rat) < 2 powi (bitlen m)" "(0::rat) < 2 powi (bitlen m - 1)" by simp_all
    have a: "a = 1 / b" using assms by (simp add: b_def)
    have "1 / (2 powi (bitlen m)) \<le> 1 / b"
      using bhi b1 pos by (intro divide_left_mono) simp_all
    then have lo: "2 powi (- bitlen m) \<le> a"
      by (simp add: a power_int_minus divide_inverse)
    have bpos: "0 < b" using b1 by simp
    have "1 / b < 1 / (2 powi (bitlen m - 1))"
      using blo pos bpos by (intro divide_strict_left_mono mult_pos_pos) simp_all
    also have "1 / ((2::rat) powi (bitlen m - 1)) = 2 powi (- bitlen m + 1)"
      using power_int_minus [of "2::rat" "bitlen m - 1"] by (simp add: divide_inverse)
    finally have "a < 2 powi (- bitlen m + 1)" by (simp add: a)
    with lo e show ?thesis by simp
  qed
  then show "2 powi (floor_log2 a) \<le> a" and "a < 2 powi (floor_log2 a + 1)" by simp_all
qed

lemma floor_log2_unique:
  assumes "2 powi e \<le> a" and "a < 2 powi (e + 1)"
  shows "floor_log2 a = e"
proof -
  have pos: "0 < a" using assms(1) by (rule less_le_trans [rotated]) simp
  note b = floor_log2_bounds [OF pos]
  have "(2::rat) powi e < 2 powi (floor_log2 a + 1)" using assms(1) b(2) by linarith
  then have 1: "e < floor_log2 a + 1" by (rule powi2_less_cancel)
  have "(2::rat) powi (floor_log2 a) < 2 powi (e + 1)" using assms(2) b(1) by linarith
  then have 2: "floor_log2 a < e + 1" by (rule powi2_less_cancel)
  from 1 2 show ?thesis by simp
qed


lemma round_half_even_ge: "of_int i \<le> m \<Longrightarrow> i \<le> round_half_even m"
proof -
  assume "of_int i \<le> m"
  then have "i \<le> \<lfloor>m\<rfloor>" by (simp add: le_floor_iff)
  then show ?thesis by (simp add: round_half_even_def)
qed

lemma round_half_even_le: "m \<le> of_int j \<Longrightarrow> round_half_even m \<le> j"
proof (cases "m = of_int j")
  case True
  then show ?thesis by (simp add: round_half_even_def)
next
  case False
  assume "m \<le> of_int j"
  with False have "m < of_int j" by simp
  then have "\<lfloor>m\<rfloor> < j" by (simp add: floor_less_iff)
  then show ?thesis by (simp add: round_half_even_def)
qed

lemma round_half_even_of_int: "round_half_even (of_int n) = n"
  by (simp add: round_half_even_def)

lemma round_half_even_eqI:
  assumes "of_int n - 1/2 < x" and "x < of_int n + 1/2"
  shows "round_half_even x = n"
proof (cases "of_int n \<le> x")
  case True
  with assms(2) have "\<lfloor>x\<rfloor> = n" by (simp add: floor_eq_iff)
  with assms(2) show ?thesis by (simp add: round_half_even_def)
next
  case False
  with assms(1) have fl: "\<lfloor>x\<rfloor> = n - 1" by (simp add: floor_eq_iff)
  have "x - of_int (n - 1) > 1/2" using assms(1) by simp
  then show ?thesis by (simp add: round_half_even_def fl)
qed

lemma round_half_even_tie:
  assumes "x = of_int n + 1/2"
  shows "round_half_even x = (if even n then n else n + 1)"
proof -
  have fl: "\<lfloor>x\<rfloor> = n" by (simp add: assms floor_eq_iff)
  have "x - of_int n = 1/2" by (simp add: assms)
  then show ?thesis by (simp add: round_half_even_def fl)
qed

lemma powi2_nonpos: "n \<le> 0 \<Longrightarrow> (2::rat) powi n = 1 / 2 ^ nat (- n)"
  by (cases "n = 0") (simp_all add: power_int_def inverse_eq_divide power_one_over)

text \<open>Below \<open>2 ^ 53\<close> the quantum of the rounding is \<open>1 / 2 ^ j\<close> for some \<open>j\<close>.\<close>

lemma round_magnitude_small:
  assumes "0 < a" and "a < 2 ^ 53"
  obtains j where "round_magnitude a = of_int (round_half_even (a * 2 ^ j)) / 2 ^ j"
    and "int j = 52 - floor_log2 a \<or> j = 1074"
proof -
  define e where "e = max (floor_log2 a) (- 1022)"
  have "(2::rat) powi (floor_log2 a) \<le> a" using assms(1) by (rule floor_log2_bounds)
  also have "a < 2 powi 53" using assms(2) by simp
  finally have "floor_log2 a < 53" by (rule powi2_less_cancel)
  then have e: "e - 52 \<le> 0" by (simp add: e_def)
  define j where "j = nat (52 - e)"
  have q: "(2::rat) powi (e - 52) = 1 / 2 ^ j"
    using powi2_nonpos [OF e] by (simp add: j_def)
  have "round_magnitude a = of_int (round_half_even (a * 2 ^ j)) / 2 ^ j"
    by (simp add: round_magnitude_def e_def [symmetric] q)
  moreover have "int j = 52 - floor_log2 a \<or> j = 1074"
    using e by (auto simp: j_def e_def max_def)
  ultimately show ?thesis by (rule that)
qed

lemma round_magnitude_ge:
  assumes "0 < a" and "a < 2 ^ 53" and "of_int i \<le> a"
  shows "of_int i \<le> round_magnitude a"
proof -
  from assms(1,2) obtain j where
    r: "round_magnitude a = of_int (round_half_even (a * 2 ^ j)) / 2 ^ j"
    by (rule round_magnitude_small)
  have "(of_int (i * 2 ^ j) :: rat) \<le> a * 2 ^ j" using assms(3) by simp
  then have "i * 2 ^ j \<le> round_half_even (a * 2 ^ j)" by (rule round_half_even_ge)
  then have "(of_int (i * 2 ^ j) :: rat) \<le> of_int (round_half_even (a * 2 ^ j))"
    by (simp only: of_int_le_iff)
  then show ?thesis by (simp add: r pos_le_divide_eq)
qed

lemma round_magnitude_le:
  assumes "0 < a" and "a < 2 ^ 53" and "a \<le> of_int i"
  shows "round_magnitude a \<le> of_int i"
proof -
  from assms(1,2) obtain j where
    r: "round_magnitude a = of_int (round_half_even (a * 2 ^ j)) / 2 ^ j"
    by (rule round_magnitude_small)
  have "a * 2 ^ j \<le> (of_int (i * 2 ^ j) :: rat)" using assms(3) by simp
  then have "round_half_even (a * 2 ^ j) \<le> i * 2 ^ j" by (rule round_half_even_le)
  then have "(of_int (round_half_even (a * 2 ^ j)) :: rat) \<le> of_int (i * 2 ^ j)"
    by (simp only: of_int_le_iff)
  then show ?thesis by (simp add: r pos_divide_le_eq)
qed

text \<open>
  Rounding a value of magnitude below \<open>2 ^ 53\<close> gives a finite float between the two
  integers that enclose the value.
\<close>

lemma round_double_between:
  assumes "\<bar>x\<bar> < 2 ^ 53"
  obtains r where "round_double x = Finite r" and "of_int \<lfloor>x\<rfloor> \<le> r" and "r \<le> of_int \<lceil>x\<rceil>"
proof (cases "x = 0")
  case True
  then have "round_double x = Finite 0" "of_int \<lfloor>x\<rfloor> \<le> (0::rat)" "(0::rat) \<le> of_int \<lceil>x\<rceil>"
    by (simp_all add: round_double_def)
  then show ?thesis by (rule that)
next
  case False
  define a where "a = \<bar>x\<bar>"
  have a: "0 < a" "a < 2 ^ 53" using False assms by (simp_all add: a_def)
  have lo: "of_int \<lfloor>a\<rfloor> \<le> round_magnitude a"
    using a by (rule round_magnitude_ge) simp
  have hi: "round_magnitude a \<le> of_int \<lceil>a\<rceil>"
    using a by (rule round_magnitude_le) simp
  have "a \<le> of_int (2 ^ 53)" using a(2) by simp
  then have "round_magnitude a \<le> of_int (2 ^ 53)" by (rule round_magnitude_le [OF a])
  then have "round_magnitude a \<le> 2 ^ 53" by simp
  moreover have "(2::rat) ^ 53 < 2 ^ 1024" by simp
  ultimately have fin: "\<not> 2 ^ 1024 \<le> round_magnitude a" by linarith
  show ?thesis
  proof (cases "0 < x")
    case True
    then have xa: "x = a" by (simp add: a_def)
    have "round_double x = Finite (round_magnitude a)"
      using False True fin by (simp add: round_double_def a_def [symmetric])
    moreover have "of_int \<lfloor>x\<rfloor> \<le> round_magnitude a" using lo by (simp add: xa)
    moreover have "round_magnitude a \<le> of_int \<lceil>x\<rceil>" using hi by (simp add: xa)
    ultimately show ?thesis by (rule that)
  next
    case neg: False
    then have xa: "x = - a" using False by (simp add: a_def)
    have "round_double x = Finite (- round_magnitude a)"
      using False neg fin by (simp add: round_double_def a_def [symmetric])
    moreover have "of_int \<lfloor>x\<rfloor> \<le> - round_magnitude a"
      using hi by (simp add: xa floor_minus)
    moreover have "- round_magnitude a \<le> of_int \<lceil>x\<rceil>"
      using lo by (simp add: xa ceiling_minus)
    ultimately show ?thesis by (rule that)
  qed
qed

lemma round_double_of_int:
  assumes "\<bar>n\<bar> < 2 ^ 53"
  shows "round_double (of_int n) = Finite (of_int n)"
proof -
  have "\<bar>of_int n :: rat\<bar> < 2 ^ 53"
  proof -
    have "(of_int \<bar>n\<bar> :: rat) < of_int (2 ^ 53)" using assms by (simp only: of_int_less_iff)
    then show ?thesis by simp
  qed
  then obtain r where "round_double (of_int n) = Finite r"
    and "of_int \<lfloor>of_int n :: rat\<rfloor> \<le> r" and "r \<le> of_int \<lceil>of_int n :: rat\<rceil>"
    by (rule round_double_between)
  then show ?thesis by simp
qed


text \<open>A dyadic rational with a numerator below \<open>2 ^ 53\<close> is a double.\<close>

lemma div_pow2_le: "0 \<le> (x::rat) \<Longrightarrow> x / 2 ^ k \<le> x"
proof -
  assume x: "0 \<le> x"
  have "1 \<le> (2::rat) ^ k" by simp
  with x have "x * 1 \<le> x * 2 ^ k" by (intro mult_left_mono)
  then show ?thesis by (simp add: pos_divide_le_eq)
qed

lemma round_magnitude_dyadic:
  assumes m: "0 < m" "m < 2 ^ 53" and k: "k \<le> 1074"
  shows "round_magnitude (of_int m / 2 ^ k) = of_int m / 2 ^ k"
proof -
  define a :: rat where "a = of_int m / 2 ^ k"
  have "(of_int m :: rat) < of_int (2 ^ 53)" using m(2) by (simp only: of_int_less_iff)
  then have m53: "(of_int m :: rat) < 2 ^ 53" by simp
  have pos: "0 < a" using m(1) by (simp add: a_def)
  have "a \<le> of_int m" unfolding a_def using m(1) by (intro div_pow2_le) simp
  with m53 have small: "a < 2 ^ 53" by simp
  from pos small obtain j where
    r: "round_magnitude a = of_int (round_half_even (a * 2 ^ j)) / 2 ^ j"
    and j: "int j = 52 - floor_log2 a \<or> j = 1074"
    by (rule round_magnitude_small)
  have "(2::rat) powi (floor_log2 a) \<le> a" using pos by (rule floor_log2_bounds)
  also have "a < 2 ^ 53 / 2 ^ k" using m53 by (simp add: a_def divide_strict_right_mono)
  also have "(2::rat) ^ 53 / 2 ^ k = 2 powi (53 - int k)"
    by (simp add: power_int_diff)
  finally have "floor_log2 a < 53 - int k" by (rule powi2_less_cancel)
  with j k have kj: "k \<le> j" by auto
  then obtain d where d: "j = k + d" using le_Suc_ex by blast
  have "a * 2 ^ j = of_int (m * 2 ^ d)"
    by (simp add: a_def d power_add)
  then have "round_half_even (a * 2 ^ j) = m * 2 ^ d"
    by (simp only: round_half_even_of_int)
  then have "round_magnitude a = of_int (m * 2 ^ d) / 2 ^ j" by (simp only: r)
  also have "\<dots> = a" by (simp add: a_def d power_add)
  finally show ?thesis by (simp only: a_def)
qed

lemma round_double_pos:
  "0 < x \<Longrightarrow> round_magnitude x < 2 ^ 1024 \<Longrightarrow> round_double x = Finite (round_magnitude x)"
  by (simp add: round_double_def Let_def)

lemma round_double_neg:
  "x < 0 \<Longrightarrow> round_magnitude (- x) < 2 ^ 1024 \<Longrightarrow>
     round_double x = Finite (- round_magnitude (- x))"
  by (simp add: round_double_def Let_def abs_if)

lemma round_double_dyadic:
  assumes "\<bar>m\<bar> < 2 ^ 53" and "k \<le> 1074"
  shows "round_double (of_int m / 2 ^ k) = Finite (of_int m / 2 ^ k)"
proof -
  consider "m = 0" | "0 < m" | "m < 0" by linarith
  then show ?thesis
  proof cases
    case 1
    then show ?thesis by (simp add: round_double_def)
  next
    case 2
    then have r: "round_magnitude (of_int m / 2 ^ k) = of_int m / 2 ^ k"
      using assms by (intro round_magnitude_dyadic) simp_all
    have "m < 2 ^ 53" using assms(1) 2 by simp
    then have "(of_int m :: rat) < of_int (2 ^ 53)" by (simp only: of_int_less_iff)
    moreover have "(of_int m :: rat) / 2 ^ k \<le> of_int m"
      using 2 by (intro div_pow2_le) simp
    moreover have "(2::rat) ^ 53 < 2 ^ 1024" by simp
    ultimately have "\<not> (2::rat) ^ 1024 \<le> of_int m / 2 ^ k" by simp
    with 2 r show ?thesis by (simp add: round_double_def)
  next
    case 3
    define n where "n = - m"
    have n: "0 < n" "n < 2 ^ 53" using 3 assms(1) by (simp_all add: n_def)
    have r: "round_magnitude (of_int n / 2 ^ k) = of_int n / 2 ^ k"
      using n assms(2) by (rule round_magnitude_dyadic)
    have "(of_int n :: rat) < of_int (2 ^ 53)" using n(2) by (simp only: of_int_less_iff)
    moreover have "(of_int n :: rat) / 2 ^ k \<le> of_int n"
      using n(1) by (intro div_pow2_le) simp
    moreover have "(2::rat) ^ 53 < 2 ^ 1024" by simp
    ultimately have fin: "\<not> (2::rat) ^ 1024 \<le> of_int n / 2 ^ k" by simp
    have x: "- ((of_int m :: rat) / 2 ^ k) = of_int n / 2 ^ k" by (simp add: n_def)
    have neg: "(of_int m :: rat) / 2 ^ k < 0" using 3 by (simp add: divide_less_0_iff)
    have "round_magnitude (- ((of_int m :: rat) / 2 ^ k)) < 2 ^ 1024"
      using fin unfolding x r by simp
    from round_double_neg [OF neg this] show ?thesis
      unfolding x r by (simp add: n_def)
  qed
qed

lemma round_magnitude_eval:
  assumes "2 powi e \<le> a" and "a < 2 powi (e + 1)"
  shows "round_magnitude a =
    of_int (round_half_even (a / 2 powi (max e (- 1022) - 52))) * 2 powi (max e (- 1022) - 52)"
  by (simp add: round_magnitude_def Let_def floor_log2_unique [OF assms])

section \<open>The counting line of concrete configurations\<close>

lemma float_of_int_small: "\<bar>h\<bar> < 2 ^ 53 \<Longrightarrow> float_of_int h = Inr (Finite (of_int h))"
  by (simp add: float_of_int_def round_double_of_int)

lemma counting_line_y_finite:
  "\<bar>h\<bar> < 2 ^ 53 \<Longrightarrow>
     counting_line_y (Finite f) h = py_int (round_double (of_int h * f))"
  by (simp add: counting_line_y_def float_of_int_small)

lemma counting_line_y_between:
  assumes "\<bar>h\<bar> < 2 ^ 53" and "\<bar>of_int h * f\<bar> < 2 ^ 53"
  obtains y r where "float_mul (Finite (of_int h)) (Finite f) = Finite r"
    and "counting_line_y (Finite f) h = Inr y"
    and "y = (if 0 \<le> r then \<lfloor>r\<rfloor> else \<lceil>r\<rceil>)"
    and "of_int \<lfloor>of_int h * f\<rfloor> \<le> r" and "r \<le> of_int \<lceil>of_int h * f\<rceil>"
    and "\<lfloor>of_int h * f\<rfloor> \<le> y" and "y \<le> \<lceil>of_int h * f\<rceil>"
proof -
  from assms(2) obtain r where r: "round_double (of_int h * f) = Finite r"
    and lo: "of_int \<lfloor>of_int h * f\<rfloor> \<le> r" and hi: "r \<le> of_int \<lceil>of_int h * f\<rceil>"
    by (rule round_double_between)
  define y where "y = (if 0 \<le> r then \<lfloor>r\<rfloor> else \<lceil>r\<rceil>)"
  have m: "float_mul (Finite (of_int h)) (Finite f) = Finite r" by (simp add: r)
  have c: "counting_line_y (Finite f) h = Inr y"
    by (simp add: counting_line_y_finite [OF assms(1)] r py_int_def y_def)
  have a: "\<lfloor>of_int h * f\<rfloor> \<le> \<lfloor>r\<rfloor>" using lo by (simp add: le_floor_iff)
  have b: "\<lfloor>r\<rfloor> \<le> \<lceil>r\<rceil>" by (rule floor_le_ceiling)
  have d: "\<lceil>r\<rceil> \<le> \<lceil>of_int h * f\<rceil>" using hi by (simp add: ceiling_le_iff)
  have "y = \<lfloor>r\<rfloor> \<or> y = \<lceil>r\<rceil>" by (simp add: y_def)
  with a b d have "\<lfloor>of_int h * f\<rfloor> \<le> y" and "y \<le> \<lceil>of_int h * f\<rceil>"
    by linarith+
  with m c y_def lo hi show ?thesis by (rule that)
qed

lemma counting_line_y_exact:
  assumes "\<bar>h\<bar> < 2 ^ 53" and "of_int h * f = of_int m / 2 ^ k"
    and "\<bar>m\<bar> < 2 ^ 53" and "k \<le> 1074"
  shows "counting_line_y (Finite f) h =
    Inr (if 0 \<le> of_int h * f then \<lfloor>of_int h * f\<rfloor> else \<lceil>of_int h * f\<rceil>)"
proof -
  have "round_double (of_int h * f) = Finite (of_int h * f)"
    unfolding assms(2) using assms(3,4) by (rule round_double_dyadic)
  then show ?thesis
    by (simp add: counting_line_y_finite [OF assms(1)] py_int_def)
qed

lemma line_half_200: "counting_line_y (Finite (1/2)) 200 = Inr 100"
  using counting_line_y_exact [of 200 "1/2" 100 0] by simp

lemma line_half_100: "counting_line_y (Finite (1/2)) 100 = Inr 50"
  using counting_line_y_exact [of 100 "1/2" 50 0] by simp

lemma line_half_0: "counting_line_y (Finite (1/2)) 0 = Inr 0"
  using counting_line_y_exact [of 0 "1/2" 0 0] by simp

lemma line_half_3: "counting_line_y (Finite (1/2)) 3 = Inr 1"
proof -
  have "\<lfloor>3 / 2 :: rat\<rfloor> = 1" by (simp add: floor_eq_iff)
  then show ?thesis using counting_line_y_exact [of 3 "1/2" 3 1] by simp
qed

lemma line_three_quarters_5: "counting_line_y (Finite (3/4)) 5 = Inr 3"
proof -
  have "\<lfloor>15 / 4 :: rat\<rfloor> = 3" by (simp add: floor_eq_iff)
  then show ?thesis using counting_line_y_exact [of 5 "3/4" 15 2] by simp
qed

lemma line_three_halves_100: "counting_line_y (Finite (3/2)) 100 = Inr 150"
  using counting_line_y_exact [of 100 "3/2" 150 0] by simp

lemma line_minus_half_100: "counting_line_y (Finite (- (1/2))) 100 = Inr (- 50)"
  using counting_line_y_exact [of 100 "- (1/2)" "- 50" 0] by simp

text \<open>
  The literals \<^verbatim>\<open>0.7\<close> and \<^verbatim>\<open>0.3\<close> are the doubles nearest to 7/10 and 3/10. With a
  frame of height 720 the float product of the first lies below 504 and that of the
  second is 216, though the exact product of that double and 720 lies below 216.
\<close>

lemma double_0_7: "round_double (7/10) = Finite (6305039478318694 / 2 ^ 53)"
proof -
  have "round_half_even (7 / 10 * 2 ^ 53) = 6305039478318694"
    by (rule round_half_even_eqI) simp_all
  then have "round_magnitude (7/10) = 6305039478318694 / 2 ^ 53"
    by (simp add: round_magnitude_eval [of "-1"] power_int_minus inverse_eq_divide)
  then show ?thesis by (simp add: round_double_def)
qed

lemma double_0_3: "round_double (3/10) = Finite (5404319552844595 / 2 ^ 54)"
proof -
  have "round_half_even (3 / 10 * 2 ^ 54) = 5404319552844595"
    by (rule round_half_even_eqI) simp_all
  then have "round_magnitude (3/10) = 5404319552844595 / 2 ^ 54"
    by (simp add: round_magnitude_eval [of "-2"] power_int_minus inverse_eq_divide)
  then show ?thesis by (simp add: round_double_def)
qed

lemma line_0_7_720: "counting_line_y (round_double (7/10)) 720 = Inr 503"
proof -
  have rh: "round_half_even (720 * (6305039478318694 / 2 ^ 53) * 2 ^ 44) = 8866461766385663"
    by (rule round_half_even_eqI) simp_all
  have "round_magnitude (720 * (6305039478318694 / 2 ^ 53)) = 8866461766385663 / 2 ^ 44"
    using rh by (simp add: round_magnitude_eval [of 8] power_int_minus inverse_eq_divide)
  then have "round_double (720 * (6305039478318694 / 2 ^ 53)) = Finite (8866461766385663 / 2 ^ 44)"
    by (simp add: round_double_def)
  moreover have "\<lfloor>8866461766385663 / 2 ^ 44 :: rat\<rfloor> = 503" by (simp add: floor_eq_iff)
  ultimately show ?thesis
    using counting_line_y_finite [of 720 "6305039478318694 / 2 ^ 53"]
    by (simp add: double_0_7 py_int_def)
qed

lemma line_0_3_720: "counting_line_y (round_double (3/10)) 720 = Inr 216"
proof -
  have rh: "round_half_even (720 * (5404319552844595 / 2 ^ 54) * 2 ^ 45) = 7599824371187712"
    by (rule round_half_even_eqI) simp_all
  have "round_magnitude (720 * (5404319552844595 / 2 ^ 54)) = 7599824371187712 / 2 ^ 45"
    using rh by (simp add: round_magnitude_eval [of 7] power_int_minus inverse_eq_divide)
  then have "round_double (720 * (5404319552844595 / 2 ^ 54)) = Finite (7599824371187712 / 2 ^ 45)"
    by (simp add: round_double_def)
  then show ?thesis
    using counting_line_y_finite [of 720 "5404319552844595 / 2 ^ 54"]
    by (simp add: double_0_3 py_int_def)
qed

text \<open>
  Where the line computation leaves the exact product or raises: a frame height of
  \<open>2 ^ 53 + 1\<close> is rounded to \<open>2 ^ 53\<close> by the conversion to a float; a frame height of
  \<open>2 ^ 1024\<close> is too large for a float; and the product of the literal \<^verbatim>\<open>1e308\<close> and
  100 overflows to an infinity.
\<close>

lemma line_height_rounded: "counting_line_y (Finite 1) (2 ^ 53 + 1) = Inr (2 ^ 53)"
proof -
  have rh: "round_half_even ((2 ^ 53 + 1) / 2) = 2 ^ 52"
    using round_half_even_tie [of "(2 ^ 53 + 1) / 2" "2 ^ 52"] by simp
  have "round_magnitude (2 ^ 53 + 1) = 2 ^ 53"
    using rh by (simp add: round_magnitude_eval [of 53])
  then have c: "round_double (2 ^ 53 + 1) = Finite (2 ^ 53)"
    by (simp add: round_double_def)
  have rh2: "round_half_even (2 ^ 53 / 2) = 2 ^ 52"
    by (rule round_half_even_eqI) simp_all
  have "round_magnitude (2 ^ 53) = 2 ^ 53"
    using rh2 by (simp add: round_magnitude_eval [of 53])
  then have p: "round_double (2 ^ 53) = Finite (2 ^ 53)"
    by (simp add: round_double_def)
  have "\<lfloor>2 ^ 53 :: rat\<rfloor> = 2 ^ 53" by (simp add: floor_eq_iff)
  with c p show ?thesis
    by (simp add: counting_line_y_def float_of_int_def py_int_def)
qed

lemma line_height_too_large: "counting_line_y lp (2 ^ 1024) = Inl OverflowError"
proof -
  have rh: "round_half_even (2 ^ 1024 / 2 ^ 972) = 2 ^ 52"
    by (rule round_half_even_eqI) simp_all
  have "round_magnitude (2 ^ 1024) = 2 ^ 1024"
    using rh by (simp add: round_magnitude_eval [of 1024])
  then have "round_double (2 ^ 1024) = PosInf"
    by (simp add: round_double_def)
  then show ?thesis
    by (simp add: counting_line_y_def float_of_int_def)
qed

lemma double_1e308: "round_double (10 ^ 308) = Finite (5010420900022432 * 2 ^ 971)"
proof -
  have rh: "round_half_even (10 ^ 308 / 2 ^ 971) = 5010420900022432"
    by (rule round_half_even_eqI) simp_all
  have "round_magnitude (10 ^ 308) = 5010420900022432 * 2 ^ 971"
    using rh by (simp add: round_magnitude_eval [of 1023])
  then show ?thesis by (simp add: round_double_def)
qed

lemma line_product_overflow: "counting_line_y (round_double (10 ^ 308)) 100 = Inl OverflowError"
proof -
  have rh: "round_half_even (100 * (5010420900022432 * 2 ^ 971) / 2 ^ 977) = 7828782656285050"
    by (rule round_half_even_eqI) simp_all
  have "round_magnitude (100 * (5010420900022432 * 2 ^ 971)) = 7828782656285050 * 2 ^ 977"
    using rh by (simp add: round_magnitude_eval [of 1029])
  then have "round_double (100 * (5010420900022432 * 2 ^ 971)) = PosInf"
    by (simp add: round_double_def)
  then show ?thesis
    unfolding double_1e308
    using counting_line_y_finite [of 100 "5010420900022432 * 2 ^ 971"]
    by (simp add: py_int_def)
qed


section \<open>One pass of the loop\<close>

lemma loop_body_unfold:
  assumes "track_id d = Some tid" "centroid d = Some cen"
  shows "loop_body line_y c d =
    (let h2 = appended (history_of c tid) cen;
         c1 = c\<lparr>track_history := (track_history c)(tid \<mapsto> h2)\<rparr> in
     if length h2 \<ge> 2 \<and> tid \<notin> counted_ids c then
       if snd (h2 ! (length h2 - 2)) < line_y \<and> snd (h2 ! (length h2 - 1)) \<ge> line_y then
         Inr (c1\<lparr>entry_count := entry_count c + 1, counted_ids := insert tid (counted_ids c)\<rparr>)
       else if snd (h2 ! (length h2 - 2)) > line_y \<and> snd (h2 ! (length h2 - 1)) \<le> line_y then
         Inr (c1\<lparr>exit_count := exit_count c + 1, counted_ids := insert tid (counted_ids c)\<rparr>)
       else Inr c1
     else Inr c1)"
  using assms by (simp add: loop_body_def Let_def appended_def)

lemma loop_body_Inr_keys:
  assumes "loop_body line_y c d = Inr c'"
  obtains tid cen where "track_id d = Some tid" "centroid d = Some cen"
  using assms by (auto simp: loop_body_def split: option.splits)

lemma loop_body_well_formed:
  "well_formed d \<Longrightarrow> \<exists>c'. loop_body line_y c d = Inr c'"
  by (auto simp: well_formed_def loop_body_def Let_def)

lemma loop_body_line_position:
  "loop_body line_y c d = Inr c' \<Longrightarrow> line_position c' = line_position c"
  by (auto simp: loop_body_def Let_def split: option.splits if_splits)

lemma loop_body_entry_mono:
  "loop_body line_y c d = Inr c' \<Longrightarrow> entry_count c \<le> entry_count c'"
  by (auto simp: loop_body_def Let_def split: option.splits if_splits)

lemma loop_body_exit_mono:
  "loop_body line_y c d = Inr c' \<Longrightarrow> exit_count c \<le> exit_count c'"
  by (auto simp: loop_body_def Let_def split: option.splits if_splits)

lemma loop_body_counted_mono:
  "loop_body line_y c d = Inr c' \<Longrightarrow> counted_ids c \<subseteq> counted_ids c'"
  by (auto simp: loop_body_def Let_def split: option.splits if_splits)

lemma loop_body_counted_noop:
  assumes "loop_body line_y c d = Inr c'" "track_id d = Some t" "t \<in> counted_ids c"
  shows "entry_count c' = entry_count c \<and> exit_count c' = exit_count c
    \<and> counted_ids c' = counted_ids c"
  using assms by (auto simp: loop_body_def Let_def split: option.splits if_splits)

lemma loop_body_history:
  assumes "loop_body line_y c d = Inr c'" "track_id d = Some tid" "centroid d = Some cen"
  shows "history_of c' t = (if t = tid then appended (history_of c tid) cen else history_of c t)"
  using assms
  by (auto simp: loop_body_def Let_def history_of_def appended_def split: if_splits)

subsection \<open>The bounded list\<close>

lemma appended_last: "last (appended h cen) = cen"
  by (cases h) (auto simp: appended_def TRACK_HISTORY_LENGTH_def last_tl)

lemma appended_length_single: "length (appended h cen) < 2 \<longleftrightarrow> h = []"
  by (cases h) (auto simp: appended_def TRACK_HISTORY_LENGTH_def)

lemma appended_prev:
  assumes "h \<noteq> []"
  shows "appended h cen ! (length (appended h cen) - 2) = last h"
proof (cases "length (h @ [cen]) > TRACK_HISTORY_LENGTH")
  case True
  then have len: "length h \<ge> 30" by (simp add: TRACK_HISTORY_LENGTH_def)
  have "appended h cen = tl (h @ [cen])" using True by (simp add: appended_def)
  moreover have "tl (h @ [cen]) ! (length h - 2) = (h @ [cen]) ! Suc (length h - 2)"
    using len by (intro nth_tl) simp
  moreover have "Suc (length h - 2) = length h - 1" using len by simp
  moreover have "(h @ [cen]) ! (length h - 1) = last h"
    using assms by (simp add: nth_append last_conv_nth)
  ultimately show ?thesis by simp
next
  case False
  then have "appended h cen = h @ [cen]" by (simp add: appended_def)
  then show ?thesis using assms by (simp add: nth_append last_conv_nth)
qed

lemma appended_curr: "appended h cen ! (length (appended h cen) - 1) = cen"
proof -
  have "appended h cen \<noteq> []"
    by (cases h) (auto simp: appended_def TRACK_HISTORY_LENGTH_def)
  then have "appended h cen ! (length (appended h cen) - 1) = last (appended h cen)"
    by (simp add: last_conv_nth)
  then show ?thesis by (simp add: appended_last)
qed

section \<open>Lifting a property of one pass to a frame and to a run\<close>

lemma for_detections_invariant:
  assumes step: "\<And>c d c'. P c \<Longrightarrow> loop_body line_y c d = Inr c' \<Longrightarrow> P c'"
  shows "P c \<Longrightarrow> P (fst (for_detections line_y c ds))"
proof (induction ds arbitrary: c)
  case Nil
  then show ?case by simp
next
  case (Cons d ds)
  show ?case
  proof (cases "loop_body line_y c d")
    case (Inl e)
    with Cons.prems show ?thesis by simp
  next
    case (Inr c')
    with Cons.prems have "P c'" by (rule_tac step)
    from Cons.IH [OF this] Inr show ?thesis by simp
  qed
qed

lemma update_counts_invariant:
  assumes "\<And>line_y c d c'. P c \<Longrightarrow> loop_body line_y c d = Inr c' \<Longrightarrow> P c'"
  shows "P c \<Longrightarrow> P (fst (update_counts c ds h))"
proof (cases "counting_line_y (line_position c) h")
  case (Inl e)
  assume "P c"
  with Inl show ?thesis by (simp add: update_counts_def)
next
  case (Inr line_y)
  assume "P c"
  with assms have "P (fst (for_detections line_y c ds))" by (rule for_detections_invariant)
  with Inr show ?thesis by (simp add: update_counts_def)
qed

lemma run_invariant:
  assumes step: "\<And>line_y c d c'. P c \<Longrightarrow> loop_body line_y c d = Inr c' \<Longrightarrow> P c'"
  shows "P c \<Longrightarrow> P (fst (run c frames))"
proof (induction frames arbitrary: c)
  case Nil
  then show ?case by simp
next
  case (Cons fr frames)
  obtain ds h where fr: "fr = (ds, h)" by (cases fr)
  obtain c' e where u: "update_counts c ds h = (c', e)" by (cases "update_counts c ds h")
  have "P (fst (update_counts c ds h))"
    using step Cons.prems by (rule update_counts_invariant)
  with u have c': "P c'" by simp
  show ?case
  proof (cases e)
    case None
    with Cons.IH [OF c'] fr u show ?thesis by simp
  next
    case (Some a)
    with c' fr u show ?thesis by simp
  qed
qed

lemma run_append:
  "run c (fs @ gs) =
     (case run c fs of (c', None) \<Rightarrow> run c' gs | (c', Some e) \<Rightarrow> (c', Some e))"
proof (induction fs arbitrary: c)
  case Nil
  then show ?case by simp
next
  case (Cons fr fs)
  obtain ds h where fr: "fr = (ds, h)" by (cases fr)
  show ?case using Cons.IH by (simp add: fr split: prod.splits option.splits)
qed

section \<open>The counters never decrease\<close>

lemma run_entry_mono: "entry_count c \<le> entry_count (fst (run c frames))"
proof -
  have "entry_count c \<le> entry_count c" by simp
  then show ?thesis
    by (rule run_invariant [where P = "\<lambda>s. entry_count c \<le> entry_count s", rotated])
       (drule loop_body_entry_mono, simp)
qed

lemma run_exit_mono: "exit_count c \<le> exit_count (fst (run c frames))"
proof -
  have "exit_count c \<le> exit_count c" by simp
  then show ?thesis
    by (rule run_invariant [where P = "\<lambda>s. exit_count c \<le> exit_count s", rotated])
       (drule loop_body_exit_mono, simp)
qed

lemma update_counts_entry_mono: "entry_count c \<le> entry_count (fst (update_counts c ds h))"
proof -
  have "entry_count c \<le> entry_count c" by simp
  then show ?thesis
    by (rule update_counts_invariant [where P = "\<lambda>s. entry_count c \<le> entry_count s", rotated])
       (drule loop_body_entry_mono, simp)
qed

lemma update_counts_exit_mono: "exit_count c \<le> exit_count (fst (update_counts c ds h))"
proof -
  have "exit_count c \<le> exit_count c" by simp
  then show ?thesis
    by (rule update_counts_invariant [where P = "\<lambda>s. exit_count c \<le> exit_count s", rotated])
       (drule loop_body_exit_mono, simp)
qed

lemma run_append_entry_mono:
  "entry_count (fst (run c fs)) \<le> entry_count (fst (run c (fs @ gs)))"
  using run_entry_mono [of "fst (run c fs)" gs]
  by (cases "run c fs") (auto simp: run_append split: option.splits)

lemma run_append_exit_mono:
  "exit_count (fst (run c fs)) \<le> exit_count (fst (run c (fs @ gs)))"
  using run_exit_mono [of "fst (run c fs)" gs]
  by (cases "run c fs") (auto simp: run_append split: option.splits)

text \<open>
  Claim C5. Neither counter ever decreases: not in one pass of the loop, not in a call
  of \<^verbatim>\<open>update_counts\<close> (whether or not it raises), and not when a run is continued
  by further frames. Both start at 0 in the constructor, so both are non-negative at
  every point of a run.
\<close>

theorem counters_monotone:
  "(loop_body line_y c d = Inr c' \<longrightarrow>
      entry_count c \<le> entry_count c' \<and> exit_count c \<le> exit_count c')
   \<and> entry_count c \<le> entry_count (fst (update_counts c ds h))
   \<and> exit_count c \<le> exit_count (fst (update_counts c ds h))
   \<and> entry_count (fst (run c fs)) \<le> entry_count (fst (run c (fs @ gs)))
   \<and> exit_count (fst (run c fs)) \<le> exit_count (fst (run c (fs @ gs)))
   \<and> 0 \<le> entry_count (fst (run (init lp) fs))
   \<and> 0 \<le> exit_count (fst (run (init lp) fs))"
proof -
  have "0 \<le> entry_count (fst (run (init lp) fs))"
    using run_entry_mono [of "init lp" fs] by (simp add: init_def)
  moreover have "0 \<le> exit_count (fst (run (init lp) fs))"
    using run_exit_mono [of "init lp" fs] by (simp add: init_def)
  ultimately show ?thesis
    using loop_body_entry_mono loop_body_exit_mono update_counts_entry_mono
      update_counts_exit_mono run_append_entry_mono run_append_exit_mono
    by blast
qed

theorem counters_monotone_witness:
  "loop_body 100 (fst (run (init (Finite (1/2))) [([det 7 (3, 90)], 200)])) (det 7 (3, 110))
     = Inr (fst (run (init (Finite (1/2))) [([det 7 (3, 90)], 200), ([det 7 (3, 110)], 200)]))
   \<and> entry_count (fst (run (init (Finite (1/2))) [([det 7 (3, 90)], 200)])) = 0
   \<and> entry_count (fst (run (init (Finite (1/2))) [([det 7 (3, 90)], 200), ([det 7 (3, 110)], 200)])) = 1
   \<and> exit_count (fst (run (init (Finite (1/2))) [([det 7 (3, 90)], 200), ([det 7 (3, 110)], 200)])) = 0"
  using counters_monotone [of 100 "fst (run (init (Finite (1/2))) [([det 7 (3, 90)], 200)])"
     "det 7 (3, 110)"
     "fst (run (init (Finite (1/2))) [([det 7 (3, 90)], 200), ([det 7 (3, 110)], 200)])"]
  by (simp add: init_def det_def update_counts_def loop_body_def history_of_def
      line_half_200 line_half_100 TRACK_HISTORY_LENGTH_def)

section \<open>The totals and the counted set\<close>

lemma loop_body_paired: "paired c \<Longrightarrow> loop_body line_y c d = Inr c' \<Longrightarrow> paired c'"
  by (auto simp: loop_body_def Let_def paired_def split: option.splits if_splits)

lemma run_paired: "paired c \<Longrightarrow> paired (fst (run c frames))"
  by (rule run_invariant [where P = paired]) (rule loop_body_paired)

lemma loop_body_increment_cases:
  assumes "loop_body line_y c d = Inr c'"
  shows "(entry_count c' + exit_count c' = entry_count c + exit_count c
          \<and> counted_ids c' = counted_ids c)
       \<or> (\<exists>t. track_id d = Some t \<and> t \<notin> counted_ids c
          \<and> counted_ids c' = insert t (counted_ids c)
          \<and> entry_count c' + exit_count c' = entry_count c + exit_count c + 1)"
  using assms by (auto simp: loop_body_def Let_def split: option.splits if_splits)

text \<open>
  Claim C10. The constructor leaves both counters at 0 and the counted set empty. After
  any run from there, whatever the frames, and also when the run ended in an
  exception, the counted set is finite and \<^verbatim>\<open>entry_count + exit_count\<close> is its number
  of members. A run may stop after any pass (give it the frames up to that pass), so
  this is every point of a run. And one pass of the loop, from any state, either leaves
  the sum and the set as they were, or adds 1 to the sum and inserts the detection's
  track id, which was not in the set before.
\<close>

theorem totals_equal_counted_set:
  "entry_count (init lp) = 0 \<and> exit_count (init lp) = 0 \<and> counted_ids (init lp) = {}
   \<and> finite (counted_ids (fst (run (init lp) frames)))
   \<and> entry_count (fst (run (init lp) frames)) + exit_count (fst (run (init lp) frames))
       = int (card (counted_ids (fst (run (init lp) frames))))
   \<and> (loop_body line_y c d = Inr c' \<longrightarrow>
        (entry_count c' + exit_count c' = entry_count c + exit_count c
          \<and> counted_ids c' = counted_ids c)
        \<or> (\<exists>t. track_id d = Some t \<and> t \<notin> counted_ids c
          \<and> counted_ids c' = insert t (counted_ids c)
          \<and> entry_count c' + exit_count c' = entry_count c + exit_count c + 1))"
proof -
  have "paired (init lp)" by (simp add: paired_def init_def)
  then have "paired (fst (run (init lp) frames))" by (rule run_paired)
  then show ?thesis
    using loop_body_increment_cases [of line_y c d c']
    by (simp add: paired_def init_def)
qed

theorem totals_equal_counted_set_witness:
  "loop_body 100 (fst (run (init (Finite (1/2))) [([det 7 (3, 90), det 8 (5, 120)], 200)])) (det 8 (5, 100))
     = Inr (fst (run (init (Finite (1/2)))
         [([det 7 (3, 90), det 8 (5, 120)], 200), ([det 8 (5, 100)], 200)]))
   \<and> counted_ids (fst (run (init (Finite (1/2))) [([det 7 (3, 90), det 8 (5, 120)], 200)])) = {}
   \<and> counted_ids (fst (run (init (Finite (1/2)))
         [([det 7 (3, 90), det 8 (5, 120)], 200), ([det 8 (5, 100)], 200)])) = {8}
   \<and> entry_count (fst (run (init (Finite (1/2)))
         [([det 7 (3, 90), det 8 (5, 120)], 200), ([det 8 (5, 100)], 200)])) = 0
   \<and> exit_count (fst (run (init (Finite (1/2)))
         [([det 7 (3, 90), det 8 (5, 120)], 200), ([det 8 (5, 100)], 200)])) = 1"
  using totals_equal_counted_set [of "Finite (1/2)"
     "[([det 7 (3, 90), det 8 (5, 120)], 200), ([det 8 (5, 100)], 200)]"
     100 "fst (run (init (Finite (1/2))) [([det 7 (3, 90), det 8 (5, 120)], 200)])" "det 8 (5, 100)"
     "fst (run (init (Finite (1/2))) [([det 7 (3, 90), det 8 (5, 120)], 200), ([det 8 (5, 100)], 200)])"]
  by (simp add: init_def det_def update_counts_def loop_body_def history_of_def
      line_half_200 line_half_100 TRACK_HISTORY_LENGTH_def)

section \<open>A track is counted at most once\<close>

lemma loop_body_increment_same:
  assumes "loop_body line_y c d = Inr c'" "track_id d = Some t"
  shows "increment c c' = (if t \<in> counted_ids c' \<and> t \<notin> counted_ids c then 1 else 0)"
  using assms by (auto simp: loop_body_def Let_def increment_def split: option.splits if_splits)

lemma loop_body_counted_other:
  assumes "loop_body line_y c d = Inr c'" "track_id d \<noteq> Some t"
  shows "t \<in> counted_ids c' \<longleftrightarrow> t \<in> counted_ids c"
  using assms by (auto simp: loop_body_def Let_def split: option.splits if_splits)

lemma for_detections_counted_mono:
  "counted_ids c \<subseteq> counted_ids (fst (for_detections line_y c ds))"
proof -
  have "counted_ids c \<subseteq> counted_ids c" by simp
  then show ?thesis
    by (rule for_detections_invariant [where P = "\<lambda>s. counted_ids c \<subseteq> counted_ids s", rotated])
       (drule loop_body_counted_mono, blast)
qed

lemma run_counted_mono: "counted_ids c \<subseteq> counted_ids (fst (run c frames))"
proof -
  have "counted_ids c \<subseteq> counted_ids c" by simp
  then show ?thesis
    by (rule run_invariant [where P = "\<lambda>s. counted_ids c \<subseteq> counted_ids s", rotated])
       (drule loop_body_counted_mono, blast)
qed

lemma contribution_frame_eq:
  "contribution_frame t line_y c ds =
     (if t \<in> counted_ids (fst (for_detections line_y c ds)) \<and> t \<notin> counted_ids c then 1 else 0)"
proof (induction ds arbitrary: c)
  case Nil
  then show ?case by simp
next
  case (Cons d ds)
  show ?case
  proof (cases "loop_body line_y c d")
    case (Inl e)
    then show ?thesis by simp
  next
    case (Inr c')
    note IH = Cons.IH [of c']
    have mono: "counted_ids c' \<subseteq> counted_ids (fst (for_detections line_y c' ds))"
      by (rule for_detections_counted_mono)
    have sub: "counted_ids c \<subseteq> counted_ids c'"
      using Inr by (rule loop_body_counted_mono)
    show ?thesis
    proof (cases "track_id d = Some t")
      case True
      from loop_body_increment_same [OF Inr True] IH mono sub Inr True
      show ?thesis by auto
    next
      case False
      from loop_body_counted_other [OF Inr False] IH Inr False
      show ?thesis by auto
    qed
  qed
qed

lemma contribution_eq:
  "contribution t c frames =
     (if t \<in> counted_ids (fst (run c frames)) \<and> t \<notin> counted_ids c then 1 else 0)"
proof (induction frames arbitrary: c)
  case Nil
  then show ?case by simp
next
  case (Cons fr frames)
  obtain ds h where fr: "fr = (ds, h)" by (cases fr)
  show ?case
  proof (cases "counting_line_y (line_position c) h")
    case (Inl e)
    then show ?thesis by (simp add: fr update_counts_def)
  next
    case (Inr line_y)
    obtain c' e where u: "update_counts c ds h = (c', e)" by (cases "update_counts c ds h")
    have c': "c' = fst (for_detections line_y c ds)"
      using u Inr by (simp add: update_counts_def)
    have sub: "counted_ids c \<subseteq> counted_ids c'"
      unfolding c' by (rule for_detections_counted_mono)
    have mono: "counted_ids c' \<subseteq> counted_ids (fst (run c' frames))"
      by (rule run_counted_mono)
    have fr_eq: "contribution_frame t line_y c ds =
        (if t \<in> counted_ids c' \<and> t \<notin> counted_ids c then 1 else 0)"
      unfolding c' by (rule contribution_frame_eq)
    show ?thesis
    proof (cases e)
      case None
      with Cons.IH [of c'] fr u fr_eq sub mono Inr show ?thesis by auto
    next
      case (Some a)
      with fr u fr_eq Inr show ?thesis by auto
    qed
  qed
qed

text \<open>
  Claim C1. For every track id \<open>t\<close> and every list of frames, the passes for \<open>t\<close> add
  0 or 1 to \<^verbatim>\<open>entry_count + exit_count\<close> over the whole run, from a fresh counter
  and from any other state; they add 1 exactly when the run puts \<open>t\<close> into the counted
  set, and 0 when \<open>t\<close> was in it from the start. Once \<open>t\<close> is in the counted set, a pass
  for \<open>t\<close> leaves both counters and the set as they were, whatever the positions.
\<close>

theorem at_most_once:
  "(contribution t (init lp) frames = 0 \<or> contribution t (init lp) frames = 1)
   \<and> (contribution t c frames = 0 \<or> contribution t c frames = 1)
   \<and> (t \<in> counted_ids c \<longrightarrow> contribution t c frames = 0)
   \<and> (contribution t (init lp) frames = 1 \<longleftrightarrow> t \<in> counted_ids (fst (run (init lp) frames)))
   \<and> (t \<in> counted_ids c \<and> track_id d = Some t \<and> loop_body line_y c d = Inr c' \<longrightarrow>
        entry_count c' = entry_count c \<and> exit_count c' = exit_count c
        \<and> counted_ids c' = counted_ids c)"
  using loop_body_counted_noop [of line_y c d c' t]
  by (simp add: contribution_eq init_def)

theorem at_most_once_witness:
  "7 \<in> counted_ids (fst (run (init (Finite (1/2))) [([det 7 (3, 90)], 200), ([det 7 (3, 110)], 200)]))
   \<and> track_id (det 7 (3, 90)) = Some 7
   \<and> loop_body 100 (fst (run (init (Finite (1/2))) [([det 7 (3, 90)], 200), ([det 7 (3, 110)], 200)]))
        (det 7 (3, 90))
      = Inr (fst (run (init (Finite (1/2)))
          [([det 7 (3, 90)], 200), ([det 7 (3, 110)], 200), ([det 7 (3, 90)], 200)]))
   \<and> contribution 7 (init (Finite (1/2)))
        [([det 7 (3, 90)], 200), ([det 7 (3, 110)], 200), ([det 7 (3, 90)], 200)] = 1
   \<and> contribution 7 (fst (run (init (Finite (1/2))) [([det 7 (3, 90)], 200), ([det 7 (3, 110)], 200)]))
        [([det 7 (3, 90)], 200)] = 0
   \<and> entry_count (fst (run (init (Finite (1/2)))
          [([det 7 (3, 90)], 200), ([det 7 (3, 110)], 200), ([det 7 (3, 90)], 200)])) = 1
   \<and> exit_count (fst (run (init (Finite (1/2)))
          [([det 7 (3, 90)], 200), ([det 7 (3, 110)], 200), ([det 7 (3, 90)], 200)])) = 0"
  using at_most_once [of 7 "Finite (1/2)"
     "[([det 7 (3, 90)], 200), ([det 7 (3, 110)], 200), ([det 7 (3, 90)], 200)]"
     "fst (run (init (Finite (1/2))) [([det 7 (3, 90)], 200), ([det 7 (3, 110)], 200)])"
     "det 7 (3, 90)" 100
     "fst (run (init (Finite (1/2)))
          [([det 7 (3, 90)], 200), ([det 7 (3, 110)], 200), ([det 7 (3, 90)], 200)])"]
  by (simp add: init_def det_def update_counts_def loop_body_def history_of_def
      line_half_200 line_half_100 TRACK_HISTORY_LENGTH_def increment_def)

section \<open>Crossing detection\<close>

text \<open>
  Claim C2. Take a pass for a track that is not yet counted, and let \<open>h\<close> be the
  track's history as the pass leaves it, the new position last. With fewer than two
  positions in \<open>h\<close> nothing is counted. Otherwise, with \<open>prev_y\<close> the second-to-last
  and \<open>curr_y\<close> the last y-coordinate of \<open>h\<close>: an entry is counted (and the track
  marked) iff \<open>prev_y < line_y \<and> curr_y \<ge> line_y\<close>, an exit is counted (and the track
  marked) iff \<open>prev_y > line_y \<and> curr_y \<le> line_y\<close>, and nothing changes iff neither
  holds.
\<close>

theorem crossing_detection:
  assumes lb: "loop_body line_y c d = Inr c'"
    and tid: "track_id d = Some t"
    and cen: "centroid d = Some cen"
    and nc: "t \<notin> counted_ids c"
  shows "last (history_of c' t) = cen
   \<and> (length (history_of c' t) < 2 \<longrightarrow>
        entry_count c' = entry_count c \<and> exit_count c' = exit_count c
        \<and> counted_ids c' = counted_ids c)
   \<and> (length (history_of c' t) \<ge> 2 \<longrightarrow>
        (entry_count c' = entry_count c + 1 \<and> exit_count c' = exit_count c
           \<and> counted_ids c' = insert t (counted_ids c)
         \<longleftrightarrow> snd (history_of c' t ! (length (history_of c' t) - 2)) < line_y
             \<and> snd (history_of c' t ! (length (history_of c' t) - 1)) \<ge> line_y)
      \<and> (exit_count c' = exit_count c + 1 \<and> entry_count c' = entry_count c
           \<and> counted_ids c' = insert t (counted_ids c)
         \<longleftrightarrow> snd (history_of c' t ! (length (history_of c' t) - 2)) > line_y
             \<and> snd (history_of c' t ! (length (history_of c' t) - 1)) \<le> line_y)
      \<and> (entry_count c' = entry_count c \<and> exit_count c' = exit_count c
           \<and> counted_ids c' = counted_ids c
         \<longleftrightarrow> \<not> (snd (history_of c' t ! (length (history_of c' t) - 2)) < line_y
             \<and> snd (history_of c' t ! (length (history_of c' t) - 1)) \<ge> line_y)
           \<and> \<not> (snd (history_of c' t ! (length (history_of c' t) - 2)) > line_y
             \<and> snd (history_of c' t ! (length (history_of c' t) - 1)) \<le> line_y)))"
proof -
  have h: "history_of c' t = appended (history_of c t) cen"
    using loop_body_history [OF lb tid cen, of t] by simp
  define h2 where "h2 = appended (history_of c t) cen"
  define p where "p = snd (h2 ! (length h2 - 2))"
  define q where "q = snd (h2 ! (length h2 - 1))"
  define c1 where "c1 = c\<lparr>track_history := (track_history c)(t \<mapsto> h2)\<rparr>"
  have c1: "entry_count c1 = entry_count c" "exit_count c1 = exit_count c"
    "counted_ids c1 = counted_ids c"
    by (simp_all add: c1_def)
  have unf: "loop_body line_y c d =
     (if length h2 \<ge> 2 then
       if p < line_y \<and> q \<ge> line_y then
         Inr (c1\<lparr>entry_count := entry_count c + 1, counted_ids := insert t (counted_ids c)\<rparr>)
       else if p > line_y \<and> q \<le> line_y then
         Inr (c1\<lparr>exit_count := exit_count c + 1, counted_ids := insert t (counted_ids c)\<rparr>)
       else Inr c1
     else Inr c1)"
    using loop_body_unfold [OF tid cen, of line_y c] nc
    by (simp add: h2_def p_def q_def c1_def Let_def)
  have ins: "insert t (counted_ids c) \<noteq> counted_ids c" using nc by auto
  have last: "last h2 = cen" by (simp add: h2_def appended_last)
  have goal: "last h2 = cen
   \<and> (length h2 < 2 \<longrightarrow>
        entry_count c' = entry_count c \<and> exit_count c' = exit_count c
        \<and> counted_ids c' = counted_ids c)
   \<and> (length h2 \<ge> 2 \<longrightarrow>
        (entry_count c' = entry_count c + 1 \<and> exit_count c' = exit_count c
           \<and> counted_ids c' = insert t (counted_ids c)
         \<longleftrightarrow> p < line_y \<and> q \<ge> line_y)
      \<and> (exit_count c' = exit_count c + 1 \<and> entry_count c' = entry_count c
           \<and> counted_ids c' = insert t (counted_ids c)
         \<longleftrightarrow> p > line_y \<and> q \<le> line_y)
      \<and> (entry_count c' = entry_count c \<and> exit_count c' = exit_count c
           \<and> counted_ids c' = counted_ids c
         \<longleftrightarrow> \<not> (p < line_y \<and> q \<ge> line_y) \<and> \<not> (p > line_y \<and> q \<le> line_y)))"
  proof (cases "length h2 \<ge> 2")
    case False
    with unf lb have "c' = c1" by simp
    with False last c1 show ?thesis by simp
  next
    case long: True
    show ?thesis
    proof (cases "p < line_y \<and> q \<ge> line_y")
      case True
      with unf lb long have
        "c' = c1\<lparr>entry_count := entry_count c + 1, counted_ids := insert t (counted_ids c)\<rparr>"
        by simp
      then have "entry_count c' = entry_count c + 1" "exit_count c' = exit_count c"
        "counted_ids c' = insert t (counted_ids c)"
        using c1 by simp_all
      with True long last ins show ?thesis by simp
    next
      case no_entry: False
      show ?thesis
      proof (cases "p > line_y \<and> q \<le> line_y")
        case True
        with unf lb long no_entry have
          "c' = c1\<lparr>exit_count := exit_count c + 1, counted_ids := insert t (counted_ids c)\<rparr>"
          by simp
        then have "entry_count c' = entry_count c" "exit_count c' = exit_count c + 1"
          "counted_ids c' = insert t (counted_ids c)"
          using c1 by simp_all
        with True no_entry long last ins show ?thesis by simp
      next
        case False
        with unf lb long no_entry have "c' = c1" by simp
        then have "entry_count c' = entry_count c" "exit_count c' = exit_count c"
          "counted_ids c' = counted_ids c"
          using c1 by simp_all
        with False no_entry long last ins show ?thesis by simp
      qed
    qed
  qed
  show ?thesis using goal unfolding h p_def q_def h2_def .
qed

theorem crossing_detection_witness:
  "loop_body 100 (fst (run (init (Finite (1/2))) [([det 7 (3, 90)], 200)])) (det 7 (4, 110))
     = Inr (fst (run (init (Finite (1/2))) [([det 7 (3, 90)], 200), ([det 7 (4, 110)], 200)]))
   \<and> track_id (det 7 (4, 110)) = Some 7
   \<and> centroid (det 7 (4, 110)) = Some (4, 110)
   \<and> 7 \<notin> counted_ids (fst (run (init (Finite (1/2))) [([det 7 (3, 90)], 200)]))
   \<and> history_of (fst (run (init (Finite (1/2))) [([det 7 (3, 90)], 200), ([det 7 (4, 110)], 200)])) 7
       = [(3, 90), (4, 110)]
   \<and> entry_count (fst (run (init (Finite (1/2))) [([det 7 (3, 90)], 200), ([det 7 (4, 110)], 200)]))
       = entry_count (fst (run (init (Finite (1/2))) [([det 7 (3, 90)], 200)])) + 1"
proof -
  have a: "loop_body 100 (fst (run (init (Finite (1/2))) [([det 7 (3, 90)], 200)])) (det 7 (4, 110))
     = Inr (fst (run (init (Finite (1/2))) [([det 7 (3, 90)], 200), ([det 7 (4, 110)], 200)]))"
    by (simp add: init_def det_def update_counts_def loop_body_def history_of_def
        line_half_200 line_half_100 TRACK_HISTORY_LENGTH_def)
  have b: "track_id (det 7 (4, 110)) = Some 7" by (simp add: det_def)
  have c: "centroid (det 7 (4, 110)) = Some (4, 110)" by (simp add: det_def)
  have d: "7 \<notin> counted_ids (fst (run (init (Finite (1/2))) [([det 7 (3, 90)], 200)]))"
    by (simp add: init_def det_def update_counts_def loop_body_def history_of_def
        line_half_200 line_half_100 TRACK_HISTORY_LENGTH_def)
  have e: "history_of (fst (run (init (Finite (1/2))) [([det 7 (3, 90)], 200), ([det 7 (4, 110)], 200)])) 7
       = [(3, 90), (4, 110)]"
    by (simp add: init_def det_def update_counts_def loop_body_def history_of_def
        line_half_200 line_half_100 TRACK_HISTORY_LENGTH_def)
  from crossing_detection [OF a b c d] e a b c d show ?thesis by simp
qed

text \<open>
  Claim C3. With the line at 50, a pass for a track that is not yet counted and whose
  last recorded position has y = 40 counts an entry when the new position has y = 50;
  when the last recorded position has y = 50, a new position with y = 50 counts
  nothing. From a fresh counter with the line at 50 (fraction 1/2 of a frame of height
  100): the positions 40 then 50 leave \<^verbatim>\<open>entry_count\<close> at 1, the positions 50 then 50
  leave both counters at 0.
\<close>

theorem exact_line_tie_break:
  assumes nc: "t \<notin> counted_ids c" and ne: "history_of c t \<noteq> []"
  shows "(snd (last (history_of c t)) = 40 \<longrightarrow>
            (\<exists>c'. loop_body 50 c (det t (x, 50)) = Inr c'
               \<and> entry_count c' = entry_count c + 1 \<and> exit_count c' = exit_count c
               \<and> counted_ids c' = insert t (counted_ids c)))
       \<and> (snd (last (history_of c t)) = 50 \<longrightarrow>
            (\<exists>c'. loop_body 50 c (det t (x, 50)) = Inr c'
               \<and> entry_count c' = entry_count c \<and> exit_count c' = exit_count c
               \<and> counted_ids c' = counted_ids c))
       \<and> counting_line_y (Finite (1/2)) 100 = Inr 50
       \<and> entry_count (fst (run (init (Finite (1/2))) [([det t (x, 40)], 100), ([det t (x', 50)], 100)])) = 1
       \<and> exit_count (fst (run (init (Finite (1/2))) [([det t (x, 40)], 100), ([det t (x', 50)], 100)])) = 0
       \<and> entry_count (fst (run (init (Finite (1/2))) [([det t (x, 50)], 100), ([det t (x', 50)], 100)])) = 0
       \<and> exit_count (fst (run (init (Finite (1/2))) [([det t (x, 50)], 100), ([det t (x', 50)], 100)])) = 0"
proof -
  define h2 where "h2 = appended (history_of c t) (x, 50)"
  have len: "length h2 \<ge> 2"
    using appended_length_single [of "history_of c t" "(x, 50)"] ne
    by (simp add: h2_def)
  have prev: "snd (h2 ! (length h2 - 2)) = snd (last (history_of c t))"
    using appended_prev [OF ne, of "(x, 50)"] by (simp add: h2_def)
  have curr: "snd (h2 ! (length h2 - 1)) = 50"
    using appended_curr [of "history_of c t" "(x, 50)"] by (simp add: h2_def)
  have tid: "track_id (det t (x, 50)) = Some t" and cen: "centroid (det t (x, 50)) = Some (x, 50)"
    by (simp_all add: det_def)
  have unf: "loop_body 50 c (det t (x, 50)) =
    (if snd (last (history_of c t)) < 50 then
       Inr (c\<lparr>track_history := (track_history c)(t \<mapsto> h2),
              entry_count := entry_count c + 1, counted_ids := insert t (counted_ids c)\<rparr>)
     else if snd (last (history_of c t)) > 50 then
       Inr (c\<lparr>track_history := (track_history c)(t \<mapsto> h2),
              exit_count := exit_count c + 1, counted_ids := insert t (counted_ids c)\<rparr>)
     else Inr (c\<lparr>track_history := (track_history c)(t \<mapsto> h2)\<rparr>))"
    unfolding loop_body_unfold [OF tid cen] Let_def h2_def [symmetric] prev curr
    using len nc by simp
  have a: "snd (last (history_of c t)) = 40 \<longrightarrow>
            (\<exists>c'. loop_body 50 c (det t (x, 50)) = Inr c'
               \<and> entry_count c' = entry_count c + 1 \<and> exit_count c' = exit_count c
               \<and> counted_ids c' = insert t (counted_ids c))"
    by (simp add: unf)
  have b: "snd (last (history_of c t)) = 50 \<longrightarrow>
            (\<exists>c'. loop_body 50 c (det t (x, 50)) = Inr c'
               \<and> entry_count c' = entry_count c \<and> exit_count c' = exit_count c
               \<and> counted_ids c' = counted_ids c)"
    by (simp add: unf)
  have l: "counting_line_y (Finite (1/2)) 100 = Inr 50"
    by (rule line_half_100)
  have r1: "entry_count (fst (run (init (Finite (1/2))) [([det t (x, 40)], 100), ([det t (x', 50)], 100)])) = 1"
    by (simp add: init_def det_def update_counts_def loop_body_def history_of_def l
        TRACK_HISTORY_LENGTH_def)
  have r2: "exit_count (fst (run (init (Finite (1/2))) [([det t (x, 40)], 100), ([det t (x', 50)], 100)])) = 0"
    by (simp add: init_def det_def update_counts_def loop_body_def history_of_def l
        TRACK_HISTORY_LENGTH_def)
  have r3: "entry_count (fst (run (init (Finite (1/2))) [([det t (x, 50)], 100), ([det t (x', 50)], 100)])) = 0"
    by (simp add: init_def det_def update_counts_def loop_body_def history_of_def l
        TRACK_HISTORY_LENGTH_def)
  have r4: "exit_count (fst (run (init (Finite (1/2))) [([det t (x, 50)], 100), ([det t (x', 50)], 100)])) = 0"
    by (simp add: init_def det_def update_counts_def loop_body_def history_of_def l
        TRACK_HISTORY_LENGTH_def)
  from a b l r1 r2 r3 r4 show ?thesis by blast
qed

theorem exact_line_tie_break_witness:
  "3 \<notin> counted_ids (fst (run (init (Finite (1/2))) [([det 3 (8, 40)], 100)]))
   \<and> history_of (fst (run (init (Finite (1/2))) [([det 3 (8, 40)], 100)])) 3 = [(8, 40)]
   \<and> entry_count (fst (run (init (Finite (1/2))) [([det 3 (8, 40)], 100)])) = 0
   \<and> (\<exists>c'. loop_body 50 (fst (run (init (Finite (1/2))) [([det 3 (8, 40)], 100)])) (det 3 (9, 50)) = Inr c'
         \<and> entry_count c' = 1 \<and> exit_count c' = 0 \<and> counted_ids c' = {3})"
proof -
  have a: "3 \<notin> counted_ids (fst (run (init (Finite (1/2))) [([det 3 (8, 40)], 100)]))"
    by (simp add: init_def det_def update_counts_def loop_body_def history_of_def
        line_half_200 line_half_100 TRACK_HISTORY_LENGTH_def)
  have h: "history_of (fst (run (init (Finite (1/2))) [([det 3 (8, 40)], 100)])) 3 = [(8, 40)]"
    by (simp add: init_def det_def update_counts_def loop_body_def history_of_def
        line_half_200 line_half_100 TRACK_HISTORY_LENGTH_def)
  then have b: "history_of (fst (run (init (Finite (1/2))) [([det 3 (8, 40)], 100)])) 3 \<noteq> []"
    by simp
  have e: "entry_count (fst (run (init (Finite (1/2))) [([det 3 (8, 40)], 100)])) = 0"
    "exit_count (fst (run (init (Finite (1/2))) [([det 3 (8, 40)], 100)])) = 0"
    "counted_ids (fst (run (init (Finite (1/2))) [([det 3 (8, 40)], 100)])) = {}"
    by (simp_all add: init_def det_def update_counts_def loop_body_def history_of_def
        line_half_200 line_half_100 TRACK_HISTORY_LENGTH_def)
  from exact_line_tie_break [OF a b, of 9] h e a show ?thesis by simp
qed

text \<open>
  Claim C6. The capacity is 30 and the line is at 100 (fraction 1/2 of a frame of
  height 200). Track 7 is seen at y = 20, 50, 90, 110, 130, one position per frame.
  After the first three frames nothing is counted; the fourth frame (the pair 90, 110)
  counts the entry; after the fifth \<^verbatim>\<open>entry_count\<close> is 1 and \<^verbatim>\<open>exit_count\<close> is 0, and the
  passes for track 7 have added exactly 1. Going back up, by a frame at 80 or by frames
  at 130 and 80, changes neither counter: the occupancy stays 1.
\<close>

theorem end_to_end_scenario:
  "TRACK_HISTORY_LENGTH = 30
   \<and> counting_line_y (Finite (1/2)) 200 = Inr 100
   \<and> entry_count (fst (run (init (Finite (1/2)))
        [([det 7 (x, 20)], 200), ([det 7 (x, 50)], 200), ([det 7 (x, 90)], 200)])) = 0
   \<and> exit_count (fst (run (init (Finite (1/2)))
        [([det 7 (x, 20)], 200), ([det 7 (x, 50)], 200), ([det 7 (x, 90)], 200)])) = 0
   \<and> entry_count (fst (run (init (Finite (1/2)))
        [([det 7 (x, 20)], 200), ([det 7 (x, 50)], 200), ([det 7 (x, 90)], 200),
         ([det 7 (x, 110)], 200)])) = 1
   \<and> run (init (Finite (1/2)))
        [([det 7 (x, 20)], 200), ([det 7 (x, 50)], 200), ([det 7 (x, 90)], 200),
         ([det 7 (x, 110)], 200), ([det 7 (x, 130)], 200)]
      = (\<lparr>line_position = Finite (1/2),
          track_history = [7 \<mapsto> [(x, 20), (x, 50), (x, 90), (x, 110), (x, 130)]],
          counted_ids = {7}, entry_count = 1, exit_count = 0\<rparr>, None)
   \<and> contribution 7 (init (Finite (1/2)))
        [([det 7 (x, 20)], 200), ([det 7 (x, 50)], 200), ([det 7 (x, 90)], 200),
         ([det 7 (x, 110)], 200), ([det 7 (x, 130)], 200)] = 1
   \<and> run (init (Finite (1/2)))
        [([det 7 (x, 20)], 200), ([det 7 (x, 50)], 200), ([det 7 (x, 90)], 200),
         ([det 7 (x, 110)], 200), ([det 7 (x, 130)], 200), ([det 7 (x, 80)], 200)]
      = (\<lparr>line_position = Finite (1/2),
          track_history = [7 \<mapsto> [(x, 20), (x, 50), (x, 90), (x, 110), (x, 130), (x, 80)]],
          counted_ids = {7}, entry_count = 1, exit_count = 0\<rparr>, None)
   \<and> run (init (Finite (1/2)))
        [([det 7 (x, 20)], 200), ([det 7 (x, 50)], 200), ([det 7 (x, 90)], 200),
         ([det 7 (x, 110)], 200), ([det 7 (x, 130)], 200), ([det 7 (x, 130)], 200),
         ([det 7 (x, 80)], 200)]
      = (\<lparr>line_position = Finite (1/2),
          track_history =
            [7 \<mapsto> [(x, 20), (x, 50), (x, 90), (x, 110), (x, 130), (x, 130), (x, 80)]],
          counted_ids = {7}, entry_count = 1, exit_count = 0\<rparr>, None)
   \<and> entry_count (fst (run (init (Finite (1/2)))
        [([det 7 (x, 20)], 200), ([det 7 (x, 50)], 200), ([det 7 (x, 90)], 200),
         ([det 7 (x, 110)], 200), ([det 7 (x, 130)], 200), ([det 7 (x, 80)], 200)]))
      - exit_count (fst (run (init (Finite (1/2)))
        [([det 7 (x, 20)], 200), ([det 7 (x, 50)], 200), ([det 7 (x, 90)], 200),
         ([det 7 (x, 110)], 200), ([det 7 (x, 130)], 200), ([det 7 (x, 80)], 200)])) = 1"
proof -
  have l: "counting_line_y (Finite (1/2)) 200 = Inr 100"
    by (rule line_half_200)
  show ?thesis
    by (simp add: init_def det_def update_counts_def loop_body_def history_of_def l
        TRACK_HISTORY_LENGTH_def increment_def)
qed

theorem end_to_end_scenario_witness:
  "entry_count (fst (run (init (Finite (1/2)))
        [([det 7 (0, 20)], 200), ([det 7 (0, 50)], 200), ([det 7 (0, 90)], 200),
         ([det 7 (0, 110)], 200), ([det 7 (0, 130)], 200), ([det 7 (0, 80)], 200)])) = 1
   \<and> exit_count (fst (run (init (Finite (1/2)))
        [([det 7 (0, 20)], 200), ([det 7 (0, 50)], 200), ([det 7 (0, 90)], 200),
         ([det 7 (0, 110)], 200), ([det 7 (0, 130)], 200), ([det 7 (0, 80)], 200)])) = 0"
  using end_to_end_scenario [of 0] by simp

section \<open>Frames processed with one line\<close>

lemma for_detections_append:
  "for_detections line_y c (xs @ ys) =
     (case for_detections line_y c xs of
        (c', None) \<Rightarrow> for_detections line_y c' ys
      | (c', Some e) \<Rightarrow> (c', Some e))"
proof (induction xs arbitrary: c)
  case Nil
  then show ?case by simp
next
  case (Cons x xs)
  then show ?case by (cases "loop_body line_y c x") simp_all
qed

lemma for_detections_line_position:
  "line_position (fst (for_detections line_y c ds)) = line_position c"
proof -
  have "line_position c = line_position c" by simp
  then show ?thesis
    by (rule for_detections_invariant [where P = "\<lambda>s. line_position s = line_position c", rotated])
       (drule loop_body_line_position, simp)
qed

lemma update_counts_line_position:
  "line_position (fst (update_counts c ds h)) = line_position c"
  by (cases "counting_line_y (line_position c) h")
     (simp_all add: update_counts_def for_detections_line_position)

lemma update_counts_line:
  "counting_line_y (line_position c) h = Inr line_y \<Longrightarrow>
     update_counts c ds h = for_detections line_y c ds"
  by (simp add: update_counts_def)

lemma update_counts_line_error:
  "counting_line_y (line_position c) h = Inl e \<Longrightarrow> update_counts c ds h = (c, Some e)"
  by (simp add: update_counts_def)

text \<open>
  Calls that all pass the same frame height use the same line, so they process the
  detections of all the frames as one list, up to the first exception.
\<close>

lemma run_constant_height:
  assumes "counting_line_y (line_position c) h = Inr line_y"
  shows "run c (map (\<lambda>ds. (ds, h)) frames) = for_detections line_y c (concat frames)"
  using assms
proof (induction frames arbitrary: c)
  case Nil
  then show ?case by simp
next
  case (Cons ds frames)
  obtain c1 e where f: "for_detections line_y c ds = (c1, e)"
    by (cases "for_detections line_y c ds")
  have u: "update_counts c ds h = (c1, e)"
    using Cons.prems f by (simp add: update_counts_line)
  show ?case
  proof (cases e)
    case None
    have "line_position c1 = line_position c"
      using for_detections_line_position [of line_y c ds] f by simp
    with Cons.prems have "counting_line_y (line_position c1) h = Inr line_y" by simp
    from Cons.IH [OF this] u f None show ?thesis
      by (simp add: for_detections_append)
  next
    case (Some a)
    with u f show ?thesis by (simp add: for_detections_append)
  qed
qed

section \<open>The bounded history\<close>

lemma appended_length_le:
  "length h \<le> TRACK_HISTORY_LENGTH \<Longrightarrow> length (appended h cen) \<le> TRACK_HISTORY_LENGTH"
  by (simp add: appended_def)

lemma appended_drop:
  "appended (drop (length ps - TRACK_HISTORY_LENGTH) ps) cen =
     drop (length (ps @ [cen]) - TRACK_HISTORY_LENGTH) (ps @ [cen])"
proof (cases "length ps \<ge> TRACK_HISTORY_LENGTH")
  case True
  then have "length (drop (length ps - TRACK_HISTORY_LENGTH) ps @ [cen]) > TRACK_HISTORY_LENGTH"
    by simp
  then have "appended (drop (length ps - TRACK_HISTORY_LENGTH) ps) cen =
      tl (drop (length ps - TRACK_HISTORY_LENGTH) ps @ [cen])"
    by (simp only: appended_def if_True)
  also have "\<dots> = tl (drop (length ps - TRACK_HISTORY_LENGTH) (ps @ [cen]))"
    by simp
  also have "\<dots> = drop (Suc (length ps - TRACK_HISTORY_LENGTH)) (ps @ [cen])"
    by (simp only: drop_Suc tl_drop)
  also have "Suc (length ps - TRACK_HISTORY_LENGTH) = length (ps @ [cen]) - TRACK_HISTORY_LENGTH"
    using True by simp
  finally show ?thesis .
next
  case False
  then show ?thesis by (simp add: appended_def)
qed

lemma loop_body_history_bounded:
  assumes "\<forall>t. length (history_of c t) \<le> TRACK_HISTORY_LENGTH"
    and lb: "loop_body line_y c d = Inr c'"
  shows "\<forall>t. length (history_of c' t) \<le> TRACK_HISTORY_LENGTH"
proof -
  from lb obtain tid cen where k: "track_id d = Some tid" "centroid d = Some cen"
    by (rule loop_body_Inr_keys)
  show ?thesis
    using assms(1) appended_length_le [of "history_of c tid" cen]
    by (simp add: loop_body_history [OF lb k])
qed

lemma positions_of_Cons:
  "positions_of t ((ds, h) # frames) =
     List.map_filter (\<lambda>d. if track_id d = Some t then centroid d else None) ds
     @ positions_of t frames"
  by (simp add: positions_of_def List.map_filter_def)

lemma for_detections_history:
  assumes "for_detections line_y c ds = (c', None)"
    and "history_of c t = drop (length ps - TRACK_HISTORY_LENGTH) ps"
  shows "history_of c' t =
     drop (length (ps @ List.map_filter (\<lambda>d. if track_id d = Some t then centroid d else None) ds)
            - TRACK_HISTORY_LENGTH)
       (ps @ List.map_filter (\<lambda>d. if track_id d = Some t then centroid d else None) ds)"
  using assms
proof (induction ds arbitrary: c ps)
  case Nil
  then show ?case by (simp add: List.map_filter_simps)
next
  case (Cons d ds)
  from Cons.prems(1) obtain c1 where lb: "loop_body line_y c d = Inr c1"
    and rest: "for_detections line_y c1 ds = (c', None)"
    by (cases "loop_body line_y c d") auto
  from lb obtain tid cen where k: "track_id d = Some tid" "centroid d = Some cen"
    by (rule loop_body_Inr_keys)
  show ?case
  proof (cases "tid = t")
    case True
    have "history_of c1 t = appended (history_of c t) cen"
      using loop_body_history [OF lb k, of t] True by simp
    then have "history_of c1 t =
        drop (length (ps @ [cen]) - TRACK_HISTORY_LENGTH) (ps @ [cen])"
      by (simp only: Cons.prems(2) appended_drop)
    from Cons.IH [OF rest this] k True show ?thesis
      by (simp add: List.map_filter_simps)
  next
    case False
    have "history_of c1 t = drop (length ps - TRACK_HISTORY_LENGTH) ps"
      using loop_body_history [OF lb k, of t] False Cons.prems(2) by simp
    from Cons.IH [OF rest this] k False show ?thesis
      by (simp add: List.map_filter_simps)
  qed
qed

lemma run_history:
  assumes "run c frames = (c', None)"
    and "history_of c t = drop (length ps - TRACK_HISTORY_LENGTH) ps"
  shows "history_of c' t =
     drop (length (ps @ positions_of t frames) - TRACK_HISTORY_LENGTH)
       (ps @ positions_of t frames)"
  using assms
proof (induction frames arbitrary: c ps)
  case Nil
  then show ?case by (simp add: positions_of_def List.map_filter_simps)
next
  case (Cons fr frames)
  obtain ds h where fr: "fr = (ds, h)" by (cases fr)
  from Cons.prems(1) obtain line_y c1 where
    u: "for_detections line_y c ds = (c1, None)"
    and rest: "run c1 frames = (c', None)"
    by (auto simp: fr update_counts_def split: prod.splits option.splits sum.splits)
  note h1 = for_detections_history [OF u Cons.prems(2)]
  from Cons.IH [OF rest h1] show ?case
    by (simp add: fr positions_of_Cons)
qed

text \<open>
  Claim C4. After any run from a fresh counter, no track's history holds more than
  \<^verbatim>\<open>TRACK_HISTORY_LENGTH\<close> = 30 positions. When the run raised no exception, the
  history of a track is the last 30 of the positions the run fed to it, in the order
  they were fed; so after 35 positions it has length 30 and is the 35 positions without
  the first five.
\<close>

theorem history_bounded:
  "TRACK_HISTORY_LENGTH = 30
   \<and> length (history_of (fst (run (init lp) frames)) t) \<le> TRACK_HISTORY_LENGTH
   \<and> (snd (run (init lp) frames) = None \<longrightarrow>
        history_of (fst (run (init lp) frames)) t
          = drop (length (positions_of t frames) - TRACK_HISTORY_LENGTH) (positions_of t frames)
        \<and> (length (positions_of t frames) = TRACK_HISTORY_LENGTH + 5 \<longrightarrow>
             length (history_of (fst (run (init lp) frames)) t) = TRACK_HISTORY_LENGTH
             \<and> history_of (fst (run (init lp) frames)) t = drop 5 (positions_of t frames)))"
proof -
  have "\<forall>t. length (history_of (init lp) t) \<le> TRACK_HISTORY_LENGTH"
    by (simp add: init_def history_of_def)
  then have "\<forall>t. length (history_of (fst (run (init lp) frames)) t) \<le> TRACK_HISTORY_LENGTH"
    by (rule run_invariant
        [where P = "\<lambda>c. \<forall>t. length (history_of c t) \<le> TRACK_HISTORY_LENGTH", rotated])
       (rule loop_body_history_bounded)
  then have bound: "length (history_of (fst (run (init lp) frames)) t) \<le> TRACK_HISTORY_LENGTH"
    by simp
  have exact: "history_of (fst (run (init lp) frames)) t
          = drop (length (positions_of t frames) - TRACK_HISTORY_LENGTH) (positions_of t frames)"
    if ok: "snd (run (init lp) frames) = None"
  proof -
    have r: "run (init lp) frames = (fst (run (init lp) frames), None)"
      using ok by (cases "run (init lp) frames") simp
    have e: "history_of (init lp) t = drop (length ([]::(int \<times> int) list) - TRACK_HISTORY_LENGTH) []"
      by (simp add: init_def history_of_def)
    from run_history [OF r e] show ?thesis by simp
  qed
  show ?thesis using bound exact by (simp add: TRACK_HISTORY_LENGTH_def)
qed

theorem history_bounded_witness:
  "snd (run (init (Finite (1/2))) (map (\<lambda>i. ([det 1 (0, int i)], 200)) [0..<35])) = None
   \<and> length (positions_of 1 (map (\<lambda>i. ([det 1 (0, int i)], 200)) [0..<35]))
       = TRACK_HISTORY_LENGTH + 5
   \<and> length (history_of
         (fst (run (init (Finite (1/2))) (map (\<lambda>i. ([det 1 (0, int i)], 200)) [0..<35]))) 1)
       = TRACK_HISTORY_LENGTH
   \<and> history_of (fst (run (init (Finite (1/2))) (map (\<lambda>i. ([det 1 (0, int i)], 200)) [0..<35]))) 1
       = drop 5 (positions_of 1 (map (\<lambda>i. ([det 1 (0, int i)], 200)) [0..<35]))
   \<and> history_of (fst (run (init (Finite (1/2))) (map (\<lambda>i. ([det 1 (0, int i)], 200)) [0..<35]))) 1
       = map (\<lambda>i. (0, int i)) [5..<35]"
proof -
  have eq: "map (\<lambda>i. ([det 1 (0, int i)], 200)) [0..<35]
      = map (\<lambda>ds. (ds, 200)) (map (\<lambda>i. [det 1 (0, int i)]) [0..<35])"
    by (simp only: map_map comp_def)
  have l: "counting_line_y (line_position (init (Finite (1/2)))) 200 = Inr 100"
    by (simp add: init_def line_half_200)
  have r: "run (init (Finite (1/2))) (map (\<lambda>i. ([det 1 (0, int i)], 200)) [0..<35])
      = for_detections 100 (init (Finite (1/2)))
          (concat (map (\<lambda>i. [det 1 (0, int i)]) [0..<35]))"
    unfolding eq using l by (rule run_constant_height)
  have a: "snd (run (init (Finite (1/2))) (map (\<lambda>i. ([det 1 (0, int i)], 200)) [0..<35])) = None"
    unfolding r by code_simp
  have b: "length (positions_of 1 (map (\<lambda>i. ([det 1 (0, int i)], 200)) [0..<35]))
       = TRACK_HISTORY_LENGTH + 5"
    by code_simp
  have c: "history_of (fst (run (init (Finite (1/2))) (map (\<lambda>i. ([det 1 (0, int i)], 200)) [0..<35]))) 1
       = map (\<lambda>i. (0, int i)) [5..<35]"
    unfolding r by code_simp
  from history_bounded [of "Finite (1/2)" "map (\<lambda>i. ([det 1 (0, int i)], 200)) [0..<35]" 1] a b c
  show ?thesis by blast
qed


section \<open>The counting line\<close>

lemma line_floor_or_next:
  assumes lo: "of_int \<lfloor>x\<rfloor> \<le> (r::rat)" and hi: "r \<le> of_int \<lceil>x\<rceil>" and x: "0 \<le> (x::rat)"
  shows "(if 0 \<le> r then \<lfloor>r\<rfloor> else \<lceil>r\<rceil>) = \<lfloor>x\<rfloor> \<or> r = of_int \<lceil>x\<rceil>"
proof (cases "r = of_int \<lceil>x\<rceil>")
  case True
  then show ?thesis by simp
next
  case False
  with hi have "r < of_int \<lceil>x\<rceil>" by simp
  then have "\<lfloor>r\<rfloor> < \<lceil>x\<rceil>" by (simp add: floor_less_iff)
  moreover have "\<lceil>x\<rceil> \<le> \<lfloor>x\<rfloor> + 1" by linarith
  moreover have "\<lfloor>x\<rfloor> \<le> \<lfloor>r\<rfloor>" using lo by (simp add: le_floor_iff)
  ultimately have "\<lfloor>r\<rfloor> = \<lfloor>x\<rfloor>" by linarith
  moreover have "(0::rat) \<le> of_int \<lfloor>x\<rfloor>" using x by simp
  with lo have "0 \<le> r" by linarith
  ultimately show ?thesis by simp
qed

text \<open>
  Claim C7, as the specification has it, fails: the line is not the rounded product.
  With the fraction 3/4 and a frame of height 5 the float product is 3.75, the code's
  line is 3 and every rounding gives 4. With the default fraction 1/2 and a frame of
  height 3 the float product is 1.5, the code's line is 1 and rounding gives 2.
\<close>

theorem line_is_not_rounded:
  "counting_line_y (Finite (3/4)) 5 = Inr 3
   \<and> float_mul (Finite 5) (Finite (3/4)) = Finite (15/4)
   \<and> py_round (Finite (15/4)) = Inr 4 \<and> round (15/4 :: rat) = 4
   \<and> counting_line_y (Finite (1/2)) 3 = Inr 1
   \<and> float_mul (Finite 3) (Finite (1/2)) = Finite (3/2)
   \<and> py_round (Finite (3/2)) = Inr 2"
proof -
  have fl: "\<lfloor>15 / 4 :: rat\<rfloor> = 3" by (simp add: floor_eq_iff)
  have fl2: "\<lfloor>3 / 2 :: rat\<rfloor> = 1" by (simp add: floor_eq_iff)
  have m1: "float_mul (Finite 5) (Finite (3/4)) = Finite (15/4)"
    using round_double_dyadic [of 15 2] by simp
  have m2: "float_mul (Finite 3) (Finite (1/2)) = Finite (3/2)"
    using round_double_dyadic [of 3 1] by simp
  have r1: "py_round (Finite (15/4)) = Inr 4"
    by (simp add: py_round_def round_half_even_def fl)
  have r2: "py_round (Finite (3/2)) = Inr 2"
    by (simp add: py_round_def round_half_even_def fl2)
  have r3: "round (15/4 :: rat) = 4" by (simp add: round_def floor_eq_iff)
  from m1 m2 r1 r2 r3 line_three_quarters_5 line_half_3 show ?thesis by simp
qed

text \<open>
  Claim C7, amended. The line is \<^verbatim>\<open>int(frame_height * f)\<close>: the float product of the
  frame height and the configured fraction, truncated towards zero, not rounded. When
  the frame height and the exact product are below \<open>2 ^ 53\<close> in magnitude, the float
  product lies between the floor and the ceiling of the exact product, and for a
  product that is not negative the line is the floor of the exact product unless the
  float product is the next integer, which is then the line: with a frame of height 720
  the line is 503 for the fraction \<^verbatim>\<open>0.7\<close> and 216 for \<^verbatim>\<open>0.3\<close>.
  \<^verbatim>\<open>update_counts\<close> computes the line in every call from the frame height it is
  passed and never changes \<^verbatim>\<open>line_position\<close>, so a later call, whatever was
  passed before, uses the line of the configured fraction and its own frame height.
  \<^verbatim>\<open>main\<close> passes the height it read once before its loop, so all the frames of
  a run are processed with one line.
\<close>

theorem line_is_truncated_product:
  assumes "\<bar>h\<bar> < 2 ^ 53" and "\<bar>of_int h * f\<bar> < 2 ^ 53"
  shows "(\<exists>r. float_mul (Finite (of_int h)) (Finite f) = Finite r
            \<and> of_int \<lfloor>of_int h * f\<rfloor> \<le> r \<and> r \<le> of_int \<lceil>of_int h * f\<rceil>
            \<and> counting_line_y (Finite f) h = Inr (if 0 \<le> r then \<lfloor>r\<rfloor> else \<lceil>r\<rceil>)
            \<and> (0 \<le> of_int h * f \<longrightarrow>
                 (if 0 \<le> r then \<lfloor>r\<rfloor> else \<lceil>r\<rceil>) = \<lfloor>of_int h * f\<rfloor>
                 \<or> r = of_int \<lceil>of_int h * f\<rceil>))
    \<and> counting_line_y (round_double (7/10)) 720 = Inr 503
    \<and> counting_line_y (round_double (3/10)) 720 = Inr 216
    \<and> line_position (fst (update_counts c ds1 h1)) = line_position c
    \<and> (counting_line_y (line_position c) h2 = Inr line_y \<longrightarrow>
          update_counts (fst (update_counts c ds1 h1)) ds2 h2
            = for_detections line_y (fst (update_counts c ds1 h1)) ds2
          \<and> main_loop c h2 frames = for_detections line_y c (concat frames))"
proof -
  from assms obtain y r where m: "float_mul (Finite (of_int h)) (Finite f) = Finite r"
    and c: "counting_line_y (Finite f) h = Inr y"
    and y: "y = (if 0 \<le> r then \<lfloor>r\<rfloor> else \<lceil>r\<rceil>)"
    and lo: "of_int \<lfloor>of_int h * f\<rfloor> \<le> r" and hi: "r \<le> of_int \<lceil>of_int h * f\<rceil>"
    by (rule counting_line_y_between)
  have "0 \<le> of_int h * f \<longrightarrow>
      (if 0 \<le> r then \<lfloor>r\<rfloor> else \<lceil>r\<rceil>) = \<lfloor>of_int h * f\<rfloor> \<or> r = of_int \<lceil>of_int h * f\<rceil>"
    using line_floor_or_next [OF lo hi] by blast
  with m c y lo hi have first: "\<exists>r. float_mul (Finite (of_int h)) (Finite f) = Finite r
            \<and> of_int \<lfloor>of_int h * f\<rfloor> \<le> r \<and> r \<le> of_int \<lceil>of_int h * f\<rceil>
            \<and> counting_line_y (Finite f) h = Inr (if 0 \<le> r then \<lfloor>r\<rfloor> else \<lceil>r\<rceil>)
            \<and> (0 \<le> of_int h * f \<longrightarrow>
                 (if 0 \<le> r then \<lfloor>r\<rfloor> else \<lceil>r\<rceil>) = \<lfloor>of_int h * f\<rfloor>
                 \<or> r = of_int \<lceil>of_int h * f\<rceil>)"
    by blast
  have last: "counting_line_y (line_position c) h2 = Inr line_y \<longrightarrow>
          update_counts (fst (update_counts c ds1 h1)) ds2 h2
            = for_detections line_y (fst (update_counts c ds1 h1)) ds2
          \<and> main_loop c h2 frames = for_detections line_y c (concat frames)"
    by (simp add: update_counts_line update_counts_line_position main_loop_def
        run_constant_height)
  from first last line_0_7_720 line_0_3_720 update_counts_line_position [of c ds1 h1]
  show ?thesis by blast
qed

theorem line_is_truncated_product_witness:
  "\<bar>5 :: int\<bar> < 2 ^ 53 \<and> \<bar>of_int 5 * (3/4) :: rat\<bar> < 2 ^ 53
   \<and> counting_line_y (Finite (3/4)) 5 = Inr 3
   \<and> counting_line_y (line_position (init (Finite (1/2)))) 100 = Inr 50
   \<and> main_loop (init (Finite (1/2))) 100 [[det 1 (0, 40)], [det 1 (0, 60)]]
      = (\<lparr>line_position = Finite (1/2), track_history = [1 \<mapsto> [(0, 40), (0, 60)]],
          counted_ids = {1}, entry_count = 1, exit_count = 0\<rparr>, None)"
proof -
  have a: "\<bar>5 :: int\<bar> < 2 ^ 53" and b: "\<bar>of_int 5 * (3/4) :: rat\<bar> < 2 ^ 53" by simp_all
  have l: "counting_line_y (line_position (init (Finite (1/2)))) 100 = Inr 50"
    by (simp add: init_def line_half_100)
  note T = line_is_truncated_product
    [OF a b, where c = "init (Finite (1/2))" and ?h2.0 = 100 and line_y = 50
       and frames = "[[det 1 (0, 40)], [det 1 (0, 60)]]"]
  from T l have "main_loop (init (Finite (1/2))) 100 [[det 1 (0, 40)], [det 1 (0, 60)]]
      = for_detections 50 (init (Finite (1/2))) (concat [[det 1 (0, 40)], [det 1 (0, 60)]])"
    by blast
  then have "main_loop (init (Finite (1/2))) 100 [[det 1 (0, 40)], [det 1 (0, 60)]]
      = (\<lparr>line_position = Finite (1/2), track_history = [1 \<mapsto> [(0, 40), (0, 60)]],
          counted_ids = {1}, entry_count = 1, exit_count = 0\<rparr>, None)"
    by (simp add: init_def det_def loop_body_def history_of_def TRACK_HISTORY_LENGTH_def)
  with a b l line_three_quarters_5 show ?thesis by blast
qed

section \<open>Degenerate configurations and malformed detections\<close>

lemma for_detections_well_formed:
  "list_all well_formed ds \<Longrightarrow> snd (for_detections line_y c ds) = None"
proof (induction ds arbitrary: c)
  case Nil
  then show ?case by simp
next
  case (Cons d ds)
  then have "well_formed d" and rest: "list_all well_formed ds" by simp_all
  then obtain c' where "loop_body line_y c d = Inr c'"
    using loop_body_well_formed by blast
  with Cons.IH [OF rest, of c'] show ?case by simp
qed

lemma loop_body_malformed:
  "\<not> well_formed d \<Longrightarrow>
     loop_body line_y c d =
       Inl (if track_id d = None then KeyError ''track_id'' else KeyError ''centroid'')"
  by (auto simp: well_formed_def loop_body_def split: option.splits)

lemma counting_line_y_errors:
  "counting_line_y lp h = Inl e \<Longrightarrow> e = ValueError \<or> e = OverflowError"
  by (auto simp: counting_line_y_def float_of_int_def py_int_def
      split: sum.splits py_float.splits)

lemma line_nan: "counting_line_y NaN 100 = Inl ValueError"
  by (simp add: counting_line_y_def float_of_int_small py_int_def)

lemma line_inf: "counting_line_y PosInf 100 = Inl OverflowError"
  by (simp add: counting_line_y_def float_of_int_small py_int_def)

text \<open>
  Claim C8, as the specification has it, fails: nothing checks the configuration. A
  counter built with the fraction 3/2 processes a frame of height 100 without an
  exception, with the line at 150, below the frame; with the fraction -1/2 the line is
  at -50; and a counter with the fraction 1/2 processes a frame of height 0 without an
  exception, with the line at 0.
\<close>

theorem no_configuration_check:
  "update_counts (init (Finite (3/2))) [det 1 (0, 10)] 100
     = (\<lparr>line_position = Finite (3/2), track_history = [1 \<mapsto> [(0, 10)]], counted_ids = {},
         entry_count = 0, exit_count = 0\<rparr>, None)
   \<and> counting_line_y (Finite (3/2)) 100 = Inr 150
   \<and> counting_line_y (Finite (- (1/2))) 100 = Inr (- 50)
   \<and> update_counts (init (Finite (1/2))) [det 1 (0, 10)] 0
     = (\<lparr>line_position = Finite (1/2), track_history = [1 \<mapsto> [(0, 10)]], counted_ids = {},
         entry_count = 0, exit_count = 0\<rparr>, None)
   \<and> counting_line_y (Finite (1/2)) 0 = Inr 0"
  by (simp add: init_def det_def update_counts_def loop_body_def history_of_def
      line_three_halves_100 line_minus_half_100 line_half_0 TRACK_HISTORY_LENGTH_def)

text \<open>
  Claim C8, amended. The constructor stores any float as the line position, unchecked.
  With a finite fraction, inside \<open>(0, 1)\<close> or not, and a frame height, zero or not,
  that are such that the frame height and the exact product are below \<open>2 ^ 53\<close> in
  magnitude, \<^verbatim>\<open>update_counts\<close> raises nothing when the detections are well formed,
  and the line it computes is 0 for a frame of height 0, at or beyond the frame height
  for a fraction of 1 or more, and at or before 0 for a fraction of 0 or less. The line
  computation raises nothing but \<^verbatim>\<open>ValueError\<close> and \<^verbatim>\<open>OverflowError\<close>, as for a
  NaN or an infinite fraction, a product that overflows (\<^verbatim>\<open>1e308\<close> and 100) and a
  frame height too large for a float (\<open>2 ^ 1024\<close>); it does so in the call of
  \<^verbatim>\<open>update_counts\<close>, not in the constructor, and the counter is left as it was.
  Beyond \<open>2 ^ 53\<close> the line can fall short of the frame height even for the fraction
  1: the height \<open>2 ^ 53 + 1\<close> gives the line \<open>2 ^ 53\<close>.
\<close>

theorem degenerate_configuration_accepted:
  assumes wf: "list_all well_formed ds"
    and h: "\<bar>h\<bar> < 2 ^ 53" and hf: "\<bar>of_int h * f\<bar> < 2 ^ 53"
  shows "line_position (init lp) = lp
    \<and> snd (update_counts (init (Finite f)) ds h) = None
    \<and> (line_position c = Finite f \<longrightarrow> snd (update_counts c ds h) = None)
    \<and> (\<exists>y. counting_line_y (Finite f) h = Inr y
          \<and> (h = 0 \<longrightarrow> y = 0)
          \<and> (1 \<le> f \<and> 0 \<le> h \<longrightarrow> h \<le> y)
          \<and> (f \<le> 0 \<and> 0 \<le> h \<longrightarrow> y \<le> 0))
    \<and> (counting_line_y (line_position c') h' = Inl e \<longrightarrow>
          (e = ValueError \<or> e = OverflowError) \<and> update_counts c' ds' h' = (c', Some e))
    \<and> counting_line_y NaN 100 = Inl ValueError
    \<and> counting_line_y PosInf 100 = Inl OverflowError
    \<and> counting_line_y (round_double (10 ^ 308)) 100 = Inl OverflowError
    \<and> counting_line_y lp (2 ^ 1024) = Inl OverflowError
    \<and> counting_line_y (Finite 1) (2 ^ 53 + 1) = Inr (2 ^ 53)"
proof -
  from h hf obtain y where y: "counting_line_y (Finite f) h = Inr y"
    and lo: "\<lfloor>of_int h * f\<rfloor> \<le> y" and hi: "y \<le> \<lceil>of_int h * f\<rceil>"
    by (rule counting_line_y_between)
  have zero: "h = 0 \<longrightarrow> y = 0" using lo hi by auto
  have beyond: "1 \<le> f \<and> 0 \<le> h \<longrightarrow> h \<le> y"
  proof
    assume a: "1 \<le> f \<and> 0 \<le> h"
    then have "(of_int h :: rat) * 1 \<le> of_int h * f"
      by (intro mult_left_mono) simp_all
    then have "h \<le> \<lfloor>of_int h * f\<rfloor>" by (simp add: le_floor_iff)
    with lo show "h \<le> y" by simp
  qed
  have before: "f \<le> 0 \<and> 0 \<le> h \<longrightarrow> y \<le> 0"
  proof
    assume a: "f \<le> 0 \<and> 0 \<le> h"
    then have "(of_int h :: rat) * f \<le> 0" by (simp add: mult_nonneg_nonpos)
    then have "\<lceil>of_int h * f\<rceil> \<le> 0" by (simp only: ceiling_le_zero)
    with hi show "y \<le> 0" by linarith
  qed
  have run: "snd (update_counts s ds h) = None" if "line_position s = Finite f" for s
    using that y wf by (simp add: update_counts_def for_detections_well_formed)
  have "line_position (init (Finite f)) = Finite f" by (simp add: init_def)
  then have fresh: "snd (update_counts (init (Finite f)) ds h) = None" by (rule run)
  have err: "counting_line_y (line_position c') h' = Inl e \<longrightarrow>
          (e = ValueError \<or> e = OverflowError) \<and> update_counts c' ds' h' = (c', Some e)"
    using counting_line_y_errors [of "line_position c'" h' e]
    by (simp add: update_counts_line_error)
  have "line_position (init lp) = lp" by (simp add: init_def)
  with fresh run [of c] y zero beyond before err line_nan line_inf
    line_product_overflow line_height_too_large [of lp] line_height_rounded
  show ?thesis by blast
qed

theorem degenerate_configuration_accepted_witness:
  "list_all well_formed [det 1 (0, 10), det 2 (5, 120)]
   \<and> \<bar>100 :: int\<bar> < 2 ^ 53 \<and> \<bar>of_int 100 * (3/2) :: rat\<bar> < 2 ^ 53
   \<and> snd (update_counts (init (Finite (3/2))) [det 1 (0, 10), det 2 (5, 120)] 100) = None
   \<and> counting_line_y (Finite (3/2)) 100 = Inr 150
   \<and> counting_line_y (line_position (init NaN)) 100 = Inl ValueError
   \<and> update_counts (init NaN) [det 1 (0, 10)] 100 = (init NaN, Some ValueError)"
proof -
  have a: "list_all well_formed [det 1 (0, 10), det 2 (5, 120)]"
    by (simp add: well_formed_def det_def)
  have b: "\<bar>100 :: int\<bar> < 2 ^ 53" and c: "\<bar>of_int 100 * (3/2) :: rat\<bar> < 2 ^ 53"
    by simp_all
  have n: "counting_line_y (line_position (init NaN)) 100 = Inl ValueError"
    by (simp add: init_def line_nan)
  note T = degenerate_configuration_accepted
    [OF a b c, where c' = "init NaN" and h' = 100 and e = ValueError
       and ds' = "[det 1 (0, 10)]"]
  from T n have "update_counts (init NaN) [det 1 (0, 10)] 100 = (init NaN, Some ValueError)"
    by blast
  moreover from T
  have "snd (update_counts (init (Finite (3/2))) [det 1 (0, 10), det 2 (5, 120)] 100) = None"
    by blast
  ultimately show ?thesis using a b c n line_three_halves_100 by blast
qed

text \<open>
  Claim C9, as the specification has it, fails: a malformed detection ends the frame.
  Track 2 is at y = 40 and the line is at 50. The next frame lists a detection without
  its centroid and then track 2 at y = 60. The call raises \<^verbatim>\<open>KeyError\<close> and leaves
  the counter as it was: track 2's position is not recorded and its entry is not
  counted, although the frame with only the well-formed detection counts it.
\<close>

theorem malformed_detection_aborts_frame:
  "update_counts (fst (update_counts (init (Finite (1/2))) [det 2 (0, 40)] 100))
       [\<lparr>track_id = Some 1, centroid = None\<rparr>, det 2 (0, 60)] 100
     = (\<lparr>line_position = Finite (1/2), track_history = [2 \<mapsto> [(0, 40)]], counted_ids = {},
         entry_count = 0, exit_count = 0\<rparr>, Some (KeyError ''centroid''))
   \<and> update_counts (fst (update_counts (init (Finite (1/2))) [det 2 (0, 40)] 100))
       [det 2 (0, 60)] 100
     = (\<lparr>line_position = Finite (1/2), track_history = [2 \<mapsto> [(0, 40), (0, 60)]],
         counted_ids = {2}, entry_count = 1, exit_count = 0\<rparr>, None)"
  by (simp add: init_def det_def update_counts_def loop_body_def history_of_def
      line_half_100 TRACK_HISTORY_LENGTH_def)

text \<open>
  Claim C9, amended. When a frame's list holds well-formed detections, then a
  malformed one, then any others, the loop of \<^verbatim>\<open>update_counts\<close> processes the
  detections before the malformed one, raises \<^verbatim>\<open>KeyError\<close> at it without writing
  anything for it, and does not reach the detections after it, whatever the line is;
  the exception also ends the run. That is what a call does once its line is computed;
  a call whose line computation raises does not reach the loop and leaves the counter as
  it was.
\<close>

theorem malformed_detection_stops_at_offender:
  assumes "list_all well_formed ds1" and "\<not> well_formed d"
  shows "snd (for_detections line_y c ds1) = None
    \<and> for_detections line_y c (ds1 @ d # ds2)
        = (fst (for_detections line_y c ds1),
           Some (if track_id d = None then KeyError ''track_id'' else KeyError ''centroid''))
    \<and> (counting_line_y (line_position c) h = Inr line_y \<longrightarrow>
          snd (update_counts c ds1 h) = None
          \<and> update_counts c (ds1 @ d # ds2) h
              = (fst (update_counts c ds1 h),
                 Some (if track_id d = None then KeyError ''track_id''
                       else KeyError ''centroid''))
          \<and> run c ((ds1 @ d # ds2, h) # frames)
              = (fst (update_counts c ds1 h),
                 Some (if track_id d = None then KeyError ''track_id''
                       else KeyError ''centroid'')))
    \<and> (counting_line_y (line_position c') h' = Inl e \<longrightarrow>
          update_counts c' (ds1 @ d # ds2) h' = (c', Some e)
          \<and> run c' ((ds1 @ d # ds2, h') # frames) = (c', Some e))"
proof -
  obtain c1 e1 where r: "for_detections line_y c ds1 = (c1, e1)"
    by (cases "for_detections line_y c ds1")
  have none: "snd (for_detections line_y c ds1) = None"
    using assms(1) by (rule for_detections_well_formed)
  with r have e1: "e1 = None" by simp
  have loop: "for_detections line_y c (ds1 @ d # ds2)
      = (fst (for_detections line_y c ds1),
         Some (if track_id d = None then KeyError ''track_id'' else KeyError ''centroid''))"
    using r e1 loop_body_malformed [OF assms(2), of line_y c1]
    by (simp add: for_detections_append)
  have call: "counting_line_y (line_position c) h = Inr line_y \<longrightarrow>
          snd (update_counts c ds1 h) = None
          \<and> update_counts c (ds1 @ d # ds2) h
              = (fst (update_counts c ds1 h),
                 Some (if track_id d = None then KeyError ''track_id''
                       else KeyError ''centroid''))
          \<and> run c ((ds1 @ d # ds2, h) # frames)
              = (fst (update_counts c ds1 h),
                 Some (if track_id d = None then KeyError ''track_id''
                       else KeyError ''centroid''))"
    using none loop by (simp add: update_counts_line)
  have err: "counting_line_y (line_position c') h' = Inl e \<longrightarrow>
          update_counts c' (ds1 @ d # ds2) h' = (c', Some e)
          \<and> run c' ((ds1 @ d # ds2, h') # frames) = (c', Some e)"
    by (simp add: update_counts_line_error)
  from none loop call err show ?thesis by blast
qed

theorem malformed_detection_stops_at_offender_witness:
  "list_all well_formed [det 2 (0, 60)]
   \<and> \<not> well_formed \<lparr>track_id = Some 1, centroid = None\<rparr>
   \<and> counting_line_y
        (line_position (fst (update_counts (init (Finite (1/2))) [det 2 (0, 40)] 100))) 100
      = Inr 50
   \<and> counting_line_y (line_position (init NaN)) 100 = Inl ValueError
   \<and> update_counts (fst (update_counts (init (Finite (1/2))) [det 2 (0, 40)] 100))
       [det 2 (0, 60), \<lparr>track_id = Some 1, centroid = None\<rparr>, det 3 (0, 10)] 100
     = (\<lparr>line_position = Finite (1/2), track_history = [2 \<mapsto> [(0, 40), (0, 60)]],
         counted_ids = {2}, entry_count = 1, exit_count = 0\<rparr>, Some (KeyError ''centroid''))
   \<and> update_counts (init NaN)
       [det 2 (0, 60), \<lparr>track_id = Some 1, centroid = None\<rparr>, det 3 (0, 10)] 100
     = (init NaN, Some ValueError)"
proof -
  have a: "list_all well_formed [det 2 (0, 60)]"
    by (simp add: well_formed_def det_def)
  have b: "\<not> well_formed \<lparr>track_id = Some 1, centroid = None\<rparr>"
    by (simp add: well_formed_def)
  have l: "counting_line_y
        (line_position (fst (update_counts (init (Finite (1/2))) [det 2 (0, 40)] 100))) 100
      = Inr 50"
    by (simp add: update_counts_line_position init_def line_half_100)
  have n: "counting_line_y (line_position (init NaN)) 100 = Inl ValueError"
    by (simp add: init_def line_nan)
  have s: "fst (update_counts (fst (update_counts (init (Finite (1/2))) [det 2 (0, 40)] 100))
       [det 2 (0, 60)] 100)
     = \<lparr>line_position = Finite (1/2), track_history = [2 \<mapsto> [(0, 40), (0, 60)]],
         counted_ids = {2}, entry_count = 1, exit_count = 0\<rparr>"
    by (simp add: init_def det_def update_counts_def loop_body_def history_of_def
      line_half_100 TRACK_HISTORY_LENGTH_def)
  note T = malformed_detection_stops_at_offender [OF a b,
      of 50 "fst (update_counts (init (Finite (1/2))) [det 2 (0, 40)] 100)" "[det 3 (0, 10)]"
         100 "[]" "init NaN" 100 ValueError]
  from T l have "update_counts (fst (update_counts (init (Finite (1/2))) [det 2 (0, 40)] 100))
       ([det 2 (0, 60)] @ \<lparr>track_id = Some 1, centroid = None\<rparr> # [det 3 (0, 10)]) 100
     = (fst (update_counts (fst (update_counts (init (Finite (1/2))) [det 2 (0, 40)] 100))
          [det 2 (0, 60)] 100),
        Some (if track_id \<lparr>track_id = Some 1, centroid = None\<rparr> = None
              then KeyError ''track_id'' else KeyError ''centroid''))"
    by blast
  then have w1: "update_counts (fst (update_counts (init (Finite (1/2))) [det 2 (0, 40)] 100))
       [det 2 (0, 60), \<lparr>track_id = Some 1, centroid = None\<rparr>, det 3 (0, 10)] 100
     = (\<lparr>line_position = Finite (1/2), track_history = [2 \<mapsto> [(0, 40), (0, 60)]],
         counted_ids = {2}, entry_count = 1, exit_count = 0\<rparr>, Some (KeyError ''centroid''))"
    by (simp only: s) simp
  from T n have "update_counts (init NaN)
       ([det 2 (0, 60)] @ \<lparr>track_id = Some 1, centroid = None\<rparr> # [det 3 (0, 10)]) 100
     = (init NaN, Some ValueError)"
    by blast
  then have w2: "update_counts (init NaN)
       [det 2 (0, 60), \<lparr>track_id = Some 1, centroid = None\<rparr>, det 3 (0, 10)] 100
     = (init NaN, Some ValueError)"
    by simp
  from a b l n w1 w2 show ?thesis by blast
qed

end
